theory Spec2Isabelle
  imports Complex_Main "HOL-Library.Sublist"
begin

section \<open>Strings and numbers of the host language\<close>

text \<open>
  A JavaScript string is a sequence of UTF-16 code units. The model uses \<^typ>\<open>string\<close>:
  one \<^typ>\<open>char\<close> stands for one code unit in the range U+0000 to U+00FF, so
  \<^const>\<open>length\<close> is the JavaScript \<^verbatim>\<open>length\<close> for such strings. Code units above U+00FF
  are outside the model.

  White space, as \<^verbatim>\<open>String.prototype.trim\<close> and the regular expression class \<^verbatim>\<open>\s\<close>
  read it, restricted to that range: TAB, LF, VT, FF, CR, SPACE and NO-BREAK SPACE.
\<close>

definition is_ws :: "char \<Rightarrow> bool" where
  "is_ws c = (c \<in> set [CHR 0x09, CHR 0x0A, CHR 0x0B, CHR 0x0C, CHR 0x0D, CHR 0x20, CHR 0xA0])"

text \<open>The class \<^verbatim>\<open>\d\<close> (ASCII digits only) and the class \<^verbatim>\<open>[0-9a-f]\<close>.\<close>

definition is_digit :: "char \<Rightarrow> bool" where
  "is_digit c = (c \<in> set ''0123456789'')"

definition is_hex :: "char \<Rightarrow> bool" where
  "is_hex c = (c \<in> set ''0123456789abcdef'')"

text \<open>\<^verbatim>\<open>value.trim()\<close>: white space removed at both ends.\<close>

definition trim :: "string \<Rightarrow> string" where
  "trim s = rev (dropWhile is_ws (rev (dropWhile is_ws s)))"

text \<open>
  \<^verbatim>\<open>value.toLowerCase()\<close> on code units up to U+00FF: the letters A to Z, and the
  Latin-1 capitals U+00C0 to U+00DE except the multiplication sign U+00D7, move up
  by 32; every other code unit stays.
\<close>

definition upper_chars :: "char list" where
  "upper_chars = ''ABCDEFGHIJKLMNOPQRSTUVWXYZ'' @
     [CHR 0xC0, CHR 0xC1, CHR 0xC2, CHR 0xC3, CHR 0xC4, CHR 0xC5, CHR 0xC6, CHR 0xC7,
      CHR 0xC8, CHR 0xC9, CHR 0xCA, CHR 0xCB, CHR 0xCC, CHR 0xCD, CHR 0xCE, CHR 0xCF,
      CHR 0xD0, CHR 0xD1, CHR 0xD2, CHR 0xD3, CHR 0xD4, CHR 0xD5, CHR 0xD6,
      CHR 0xD8, CHR 0xD9, CHR 0xDA, CHR 0xDB, CHR 0xDC, CHR 0xDD, CHR 0xDE]"

definition lower_chars :: "char list" where
  "lower_chars = ''abcdefghijklmnopqrstuvwxyz'' @
     [CHR 0xE0, CHR 0xE1, CHR 0xE2, CHR 0xE3, CHR 0xE4, CHR 0xE5, CHR 0xE6, CHR 0xE7,
      CHR 0xE8, CHR 0xE9, CHR 0xEA, CHR 0xEB, CHR 0xEC, CHR 0xED, CHR 0xEE, CHR 0xEF,
      CHR 0xF0, CHR 0xF1, CHR 0xF2, CHR 0xF3, CHR 0xF4, CHR 0xF5, CHR 0xF6,
      CHR 0xF8, CHR 0xF9, CHR 0xFA, CHR 0xFB, CHR 0xFC, CHR 0xFD, CHR 0xFE]"

definition lower_char :: "char \<Rightarrow> char" where
  "lower_char c = (case map_of (zip upper_chars lower_chars) c of Some d \<Rightarrow> d | None \<Rightarrow> c)"

definition toLowerCase :: "string \<Rightarrow> string" where
  "toLowerCase s = map lower_char s"

text \<open>\<^verbatim>\<open>value.startsWith(p)\<close>.\<close>

definition startsWith :: "string \<Rightarrow> string \<Rightarrow> bool" where
  "startsWith s p = (take (length p) s = p)"

text \<open>
  \<^verbatim>\<open>parseInt(value, 10)\<close>: leading white space is skipped, one sign is read, and the
  longest run of decimal digits that follows is the number; with no digit there the
  result is NaN, here \<^const>\<open>None\<close>. Whatever follows the digits is ignored. The
  result is the exact integer: the rounding of integers beyond 2^53 to a double (and
  to Infinity beyond the range of doubles) is not modelled.
\<close>

definition digit_val :: "char \<Rightarrow> nat" where
  "digit_val c = (case map_of (zip ''0123456789'' [0, 1, 2, 3, 4, 5, 6, 7, 8, 9]) c of
     Some d \<Rightarrow> d | None \<Rightarrow> 0)"

definition decimal :: "string \<Rightarrow> nat" where
  "decimal ds = foldl (\<lambda>n c. 10 * n + digit_val c) 0 ds"

definition parseInt10 :: "string \<Rightarrow> int option" where
  "parseInt10 s =
     (let S = dropWhile is_ws s;
          sign = (if take 1 S = ''-'' then - 1 else 1);
          S' = (if take 1 S = ''+'' \<or> take 1 S = ''-'' then drop 1 S else S);
          Z = takeWhile is_digit S'
      in if Z = [] then None else Some (sign * int (decimal Z)))"

text \<open>\<^verbatim>\<open>Math.round\<close> on a real number: the nearest integer, a half upwards.\<close>

definition Math_round :: "real \<Rightarrow> int" where
  "Math_round x = \<lfloor>x + 1 / 2\<rfloor>"

section \<open>Errors and dimensions (util.ts)\<close>

text \<open>
  The three messages the code throws with \<^verbatim>\<open>new Error(...)\<close>: \<^verbatim>\<open>'Invalid dimensions'\<close>,
  \<^verbatim>\<open>'Invalid color'\<close> and \<^verbatim>\<open>'Invalid hex color'\<close>.
\<close>

datatype error = InvalidDimensions | InvalidColor | InvalidHexColor

record Dimensions =
  width :: int
  height :: int

definition MIN_DIMENSION :: int where
  "MIN_DIMENSION = 1"

definition MAX_DIMENSION :: int where
  "MAX_DIMENSION = 8000"

text \<open>\<^verbatim>\<open>clamp(value, min, max) = Math.min(Math.max(value, min), max)\<close>.\<close>

definition clamp :: "'a::linorder \<Rightarrow> 'a \<Rightarrow> 'a \<Rightarrow> 'a" where
  "clamp v lo hi = min (max v lo) hi"

text \<open>
  The regular expression \<^verbatim>\<open>/^(\d{1,4})x(\d{1,4})$/\<close>, with its two groups. The first
  group is greedy, so it is the whole run of digits the string starts with; the match
  needs that run to have one to four digits, the letter x right after it, and one to
  four digits and nothing else after the x.
\<close>

definition match_dims :: "string \<Rightarrow> (string \<times> string) option" where
  "match_dims s =
     (let g1 = takeWhile is_digit s; r = dropWhile is_digit s
      in case r of
           [] \<Rightarrow> None
         | c # g2 \<Rightarrow>
             if 1 \<le> length g1 \<and> length g1 \<le> 4 \<and> c = CHR ''x'' \<and>
                1 \<le> length g2 \<and> length g2 \<le> 4 \<and> list_all is_digit g2
             then Some (g1, g2) else None)"

text \<open>
  \<^verbatim>\<open>parseDims\<close>. Both groups are runs of digits, for which \<^verbatim>\<open>parseInt\<close> never gives NaN
  (lemma \<open>parseInt10_digits\<close> below); the model has no NaN dimension and sends that
  unreachable case to the error. The test after the clamp is the code's own.
\<close>

definition parseDims :: "string \<Rightarrow> error + Dimensions" where
  "parseDims v =
     (let trimmed = trim v
      in case match_dims trimmed of
           None \<Rightarrow> Inl InvalidDimensions
         | Some (g1, g2) \<Rightarrow>
             (case (parseInt10 g1, parseInt10 g2) of
                (Some n1, Some n2) \<Rightarrow>
                  (let w = clamp n1 MIN_DIMENSION MAX_DIMENSION;
                       h = clamp n2 MIN_DIMENSION MAX_DIMENSION
                   in if w < MIN_DIMENSION \<or> h < MIN_DIMENSION then Inl InvalidDimensions
                      else Inr \<lparr>width = w, height = h\<rparr>)
              | _ \<Rightarrow> Inl InvalidDimensions))"

text \<open>
  The token shape the specification asks for, in its own words: one to four digits, a
  lowercase x, one to four digits.
\<close>

definition dim_digits :: "string \<Rightarrow> bool" where
  "dim_digits ds = (1 \<le> length ds \<and> length ds \<le> 4 \<and> list_all is_digit ds)"

definition dims_token :: "string \<Rightarrow> bool" where
  "dims_token s = (\<exists>w h. s = w @ ''x'' @ h \<and> dim_digits w \<and> dim_digits h)"

section \<open>Escaping (util.ts)\<close>

text \<open>
  \<^verbatim>\<open>value.replace(/c/g, r)\<close> for a one-character pattern: every occurrence of the
  character is replaced, from left to right.
\<close>

definition replaceAll :: "char \<Rightarrow> string \<Rightarrow> string \<Rightarrow> string" where
  "replaceAll c r s = concat (map (\<lambda>d. if d = c then r else [d]) s)"

text \<open>\<^verbatim>\<open>escapeXML\<close>: the five replacements, in the order of the source.\<close>

definition escapeXML :: "string \<Rightarrow> string" where
  "escapeXML v =
     replaceAll (CHR 0x27) ''&#39;''
       (replaceAll (CHR 0x22) ''&quot;''
         (replaceAll CHR ''>'' ''&gt;''
           (replaceAll CHR ''<'' ''&lt;''
             (replaceAll CHR ''&'' ''&amp;'' v))))"


section \<open>Text wrapping (util.ts)\<close>

text \<open>
  \<^verbatim>\<open>parts.join(sep)\<close>, and \<^verbatim>\<open>value.split(/\s+/)\<close>: the pieces between maximal runs of
  white space; a string that starts or ends with white space yields an empty first
  or last piece, and the empty string yields one empty piece.
\<close>

fun join :: "string \<Rightarrow> string list \<Rightarrow> string" where
  "join sep [] = []"
| "join sep [x] = x"
| "join sep (x # y # ys) = x @ sep @ join sep (y # ys)"

function split_ws :: "string \<Rightarrow> string list" where
  "split_ws s =
     (let piece = takeWhile (\<lambda>c. \<not> is_ws c) s; r = dropWhile (\<lambda>c. \<not> is_ws c) s
      in if r = [] then [piece] else piece # split_ws (dropWhile is_ws r))"
  by pat_completeness auto
termination
proof (relation "measure length")
  show "wf (measure length)" by simp
next
  fix s piece r :: string
  assume r: "r = dropWhile (\<lambda>c. \<not> is_ws c) s" and ne: "r \<noteq> []"
  from ne obtain c cs where c: "r = c # cs" by (cases r) auto
  then have "is_ws c" using r by (metis hd_dropWhile list.sel(1) ne)
  then have "length (dropWhile is_ws r) \<le> length cs"
    using c by (simp add: length_dropWhile_le)
  moreover have "length r \<le> length s" using r by (simp add: length_dropWhile_le)
  ultimately show "(dropWhile is_ws r, s) \<in> measure length" using c by simp
qed

declare split_ws.simps [simp del]

text \<open>
  The character budget \<^verbatim>\<open>charsPerLine\<close> is a JavaScript number. The widths are
  modelled as real numbers (the rounding of doubles, and the negative zero, are not
  modelled), so the budget is a positive integer, or Infinity (a positive width over
  a zero character width), or NaN (zero over zero). \<^verbatim>\<open>Math.max(1, -Infinity)\<close> is 1.
\<close>

datatype count = Count nat | Infinite | NaN

text \<open>The comparisons \<^verbatim>\<open>n <= c\<close>, \<^verbatim>\<open>n > c\<close> and \<^verbatim>\<open>c <= 3\<close>; each is false on NaN.\<close>

definition fits :: "nat \<Rightarrow> count \<Rightarrow> bool" where
  "fits n c = (case c of Count m \<Rightarrow> n \<le> m | Infinite \<Rightarrow> True | NaN \<Rightarrow> False)"

definition exceeds :: "nat \<Rightarrow> count \<Rightarrow> bool" where
  "exceeds n c = (case c of Count m \<Rightarrow> m < n | Infinite \<Rightarrow> False | NaN \<Rightarrow> False)"

definition at_most_three :: "count \<Rightarrow> bool" where
  "at_most_three c = (case c of Count m \<Rightarrow> m \<le> 3 | Infinite \<Rightarrow> False | NaN \<Rightarrow> False)"

definition charsPerLine :: "real \<Rightarrow> real \<Rightarrow> count" where
  "charsPerLine maxWidth fontSize =
     (let widthPerChar = fontSize * 0.6
      in if widthPerChar = 0
         then (if 0 < maxWidth then Infinite else if maxWidth < 0 then Count 1 else NaN)
         else Count (nat (max 1 \<lfloor>maxWidth / widthPerChar\<rfloor>)))"

text \<open>
  \<^verbatim>\<open>chunkWord\<close>: the \<^verbatim>\<open>while\<close> loop with its two variables. With \<^verbatim>\<open>size = 0\<close> and a word
  that is not empty the loop never ends; not returning is the value \<^const>\<open>None\<close>.
\<close>

partial_function (option) chunkLoop :: "string \<Rightarrow> nat \<Rightarrow> nat \<Rightarrow> string list \<Rightarrow> string list option"
  where
  "chunkLoop word size' index result =
     (if index < length word
      then chunkLoop word size' (index + size') (result @ [take size' (drop index word)])
      else Some result)"

declare chunkLoop.simps [code]

definition chunkWord :: "string \<Rightarrow> nat \<Rightarrow> string list option" where
  "chunkWord word size' = chunkLoop word size' 0 []"

text \<open>
  \<^verbatim>\<open>collapseWithEllipsis\<close>. \<^verbatim>\<open>'.'.repeat(maxChars)\<close> is reached with a finite budget
  only; \<^verbatim>\<open>text.slice(0, maxChars - 3)\<close> is the whole text when the budget is Infinity
  and the empty string when it is NaN.
\<close>

definition collapseWithEllipsis :: "string \<Rightarrow> count \<Rightarrow> string" where
  "collapseWithEllipsis t maxChars =
     (if fits (length t) maxChars then t
      else if at_most_three maxChars
      then (case maxChars of Count m \<Rightarrow> replicate m CHR ''.'' | _ \<Rightarrow> [])
      else (case maxChars of
              Count m \<Rightarrow> take (m - 3) t
            | Infinite \<Rightarrow> t
            | NaN \<Rightarrow> []) @ ''...'')"

text \<open>
  The options of \<^verbatim>\<open>wrapText\<close>. \<^verbatim>\<open>maxLines\<close> is a line count: a natural number when
  it is given (negative and fractional values are outside the model), and 2 when it
  is not.
\<close>

record WrapOptions =
  text' :: string
  maxWidth :: real
  fontSize :: real
  wrap :: bool
  maxLines :: "nat option"

text \<open>\<^verbatim>\<open>pushCurrent\<close>: the pending line goes to the lines when it is not empty.\<close>

definition pushCurrent :: "string list \<Rightarrow> string \<Rightarrow> string list" where
  "pushCurrent lines current = (if current \<noteq> [] then lines @ [current] else lines)"

text \<open>
  The \<^verbatim>\<open>for\<close> loop over the words, on its two variables \<^verbatim>\<open>lines\<close> and \<^verbatim>\<open>current\<close>.
  A word is longer than the budget only when the budget is finite.
\<close>

fun pack :: "count \<Rightarrow> string list \<Rightarrow> string list \<Rightarrow> string \<Rightarrow> (string list \<times> string) option"
  where
  "pack cpl [] lines current = Some (lines, current)"
| "pack cpl (word # words) lines current =
     (if exceeds (length word) cpl
      then (case chunkWord word (case cpl of Count m \<Rightarrow> m | _ \<Rightarrow> 0) of
              None \<Rightarrow> None
            | Some segments \<Rightarrow> pack cpl words (pushCurrent lines current @ segments) [])
      else (let candidate = (if current \<noteq> [] then current @ '' '' @ word else word)
            in if fits (length candidate) cpl
               then pack cpl words lines candidate
               else pack cpl words (pushCurrent lines current) word))"

text \<open>
  \<^verbatim>\<open>wrapText\<close>. When the packed lines are more than \<^verbatim>\<open>maxLines\<close>: \<^verbatim>\<open>lines.slice(0, maxLines)\<close>
  has \<^verbatim>\<open>maxLines\<close> elements; \<^verbatim>\<open>lines.slice(maxLines - 1)\<close> with \<^verbatim>\<open>maxLines = 0\<close> is
  \<^verbatim>\<open>lines.slice(-1)\<close>, the last line; and the assignment to \<^verbatim>\<open>limited[maxLines - 1]\<close> with
  \<^verbatim>\<open>maxLines = 0\<close> sets the property \<^verbatim>\<open>-1\<close> of the array and leaves its elements alone.
\<close>

definition wrapText :: "WrapOptions \<Rightarrow> string list option" where
  "wrapText options =
     (let maxLines = (case maxLines options of None \<Rightarrow> 2 | Some m \<Rightarrow> m);
          trimmed = trim (text' options)
      in if trimmed = [] then Some []
         else if \<not> wrap options then Some [trimmed]
         else
           (let charsPerLine = charsPerLine (maxWidth options) (fontSize options)
            in if fits (length trimmed) charsPerLine then Some [trimmed]
               else
                 (case pack charsPerLine (split_ws trimmed) [] [] of
                    None \<Rightarrow> None
                  | Some (lines0, current) \<Rightarrow>
                      (let lines = pushCurrent lines0 current
                       in if length lines \<le> maxLines then Some lines
                          else
                            (let limited = take maxLines lines;
                                 overflow = (if maxLines = 0 then drop (length lines - 1) lines
                                             else drop (maxLines - 1) lines);
                                 final = collapseWithEllipsis (trim (join '' '' overflow))
                                           charsPerLine
                             in Some (if maxLines = 0 then limited
                                      else limited[maxLines - 1 := final]))))))"

section \<open>The scale option (index.ts)\<close>

text \<open>
  \<^verbatim>\<open>parseScale(raw: string | null)\<close>: \<^verbatim>\<open>!raw\<close> holds for \<^verbatim>\<open>null\<close> and for the empty
  string; \<^verbatim>\<open>Number.isFinite\<close> rejects NaN. (It also rejects Infinity, which
  \<^verbatim>\<open>parseInt\<close> returns for digit runs beyond the range of doubles; such a number is
  not 2, so the result is 1 in the code and in the model alike.)
\<close>

definition parseScale :: "string option \<Rightarrow> int" where
  "parseScale raw =
     (case raw of
        None \<Rightarrow> 1
      | Some r \<Rightarrow>
          if r = [] then 1
          else (case parseInt10 r of
                  None \<Rightarrow> 1
                | Some numeric \<Rightarrow> if numeric = 2 then 2 else 1))"

section \<open>Colours (util.ts)\<close>

text \<open>
  \<^verbatim>\<open>CSS_COLORS\<close> is imported from \<^verbatim>\<open>colors.ts\<close>, which is not among the sources: the
  table is a parameter of every function that reads it, a map from colour names to
  colour strings. \<^verbatim>\<open>normalized in CSS_COLORS\<close> is read as "the table has this key"
  (properties inherited from the prototype of the object are not modelled).
\<close>

type_synonym color_table = "string \<rightharpoonup> string"

text \<open>\<^verbatim>\<open>value.split(',')\<close>: the pieces between the separators, at least one piece.\<close>

fun split_on :: "char \<Rightarrow> string \<Rightarrow> string list" where
  "split_on c [] = [[]]"
| "split_on c (x # xs) =
     (if x = c then [] # split_on c xs
      else (case split_on c xs of p # ps \<Rightarrow> (x # p) # ps | [] \<Rightarrow> [[x]]))"

text \<open>
  The regular expression \<^verbatim>\<open>/^#([0-9a-f]{3}|[0-9a-f]{6})$/\<close>: the group is everything
  after the number sign.
\<close>

definition match_hex :: "string \<Rightarrow> string option" where
  "match_hex s =
     (case s of
        [] \<Rightarrow> None
      | c # v \<Rightarrow>
          if c = CHR ''#'' \<and> (length v = 3 \<or> length v = 6) \<and> list_all is_hex v
          then Some v else None)"

text \<open>
  The regular expressions \<^verbatim>\<open>/^rgba?\(\s*([^)]+)\s*\)$/\<close> and
  \<^verbatim>\<open>/^hsla?\(\s*([^)]+)\s*\)$/\<close>, for the name \<^verbatim>\<open>rgb\<close> or \<^verbatim>\<open>hsl\<close>. After the name, an
  optional \<^verbatim>\<open>a\<close> and the opening parenthesis, the rest must be a body and one closing
  parenthesis at the very end; the body is not empty and holds no closing
  parenthesis (neither \<^verbatim>\<open>[^)]\<close> nor \<^verbatim>\<open>\s\<close> matches one). The first \<^verbatim>\<open>\s*\<close> is greedy and
  takes all the white space the body starts with, the group takes the rest of the
  body, and the second \<^verbatim>\<open>\s*\<close> is left with nothing. When the body is white space
  only, the group needs one character, and backtracking leaves it the last one.
\<close>

definition match_func :: "string \<Rightarrow> string \<Rightarrow> string option" where
  "match_func name s =
     (if \<not> startsWith s name then None
      else
        (let r0 = drop (length name) s;
             r1 = (if take 1 r0 = ''a'' then drop 1 r0 else r0)
         in case r1 of
              [] \<Rightarrow> None
            | c # inner \<Rightarrow>
                if c \<noteq> CHR ''('' \<or> inner = [] \<or> last inner \<noteq> CHR '')'' then None
                else
                  (let body = butlast inner
                   in if body = [] \<or> CHR '')'' \<in> set body then None
                      else
                        (let g = dropWhile is_ws body
                         in Some (if g = [] then [last body] else g)))))"

text \<open>
  \<^verbatim>\<open>parseColor\<close>. \<^verbatim>\<open>value.split('').map((char) => char + char).join('')\<close> doubles every
  character of the three-digit form.
\<close>

definition parseColor :: "color_table \<Rightarrow> string \<Rightarrow> error + string" where
  "parseColor CSS_COLORS input =
     (let normalized = toLowerCase (trim input)
      in if normalized = [] then Inl InvalidColor
         else if normalized = ''t'' \<or> normalized = ''transparent'' then Inr ''transparent''
         else
           (case CSS_COLORS normalized of
              Some named \<Rightarrow> Inr named
            | None \<Rightarrow>
                (case match_hex normalized of
                   Some v \<Rightarrow>
                     if length v = 3 then Inr (''#'' @ concat (map (\<lambda>char. [char, char]) v))
                     else Inr (''#'' @ v)
                 | None \<Rightarrow>
                     (case match_func ''rgb'' normalized of
                        Some g \<Rightarrow>
                          (let components = join '', '' (map trim (split_on CHR '','' g))
                           in Inr (if startsWith normalized ''rgba''
                                   then ''rgba('' @ components @ '')''
                                   else ''rgb('' @ components @ '')''))
                      | None \<Rightarrow>
                          (case match_func ''hsl'' normalized of
                             Some g \<Rightarrow>
                               (let components = join '', '' (map trim (split_on CHR '','' g))
                                in Inr (if startsWith normalized ''hsla''
                                        then ''hsla('' @ components @ '')''
                                        else ''hsl('' @ components @ '')''))
                           | None \<Rightarrow> Inl InvalidColor)))))"

section \<open>Luminance and contrast (util.ts)\<close>

text \<open>
  A JavaScript number where the code can meet NaN or an infinity: a real number (the
  rounding of doubles and the negative zero are not modelled), or one of the three
  special values.
\<close>

datatype number = Finite real | PosInf | NegInf | NaNv

text \<open>
  A decimal literal of magnitude \<^verbatim>\<open>2^1024 - 2^970\<close> or more rounds to an infinity.
\<close>

definition overflow_bound :: real where
  "overflow_bound = 2 ^ 1024 - 2 ^ 970"

definition pow10 :: "int \<Rightarrow> real" where
  "pow10 e = (if 0 \<le> e then 10 ^ nat e else 1 / 10 ^ nat (- e))"

text \<open>
  \<^verbatim>\<open>parseFloat(value)\<close>: leading white space is skipped; the number is the longest
  prefix of the rest that is a decimal literal: a sign, then \<^verbatim>\<open>Infinity\<close>, or digits
  with an optional fraction, or a fraction that starts with the point, and then an
  exponent when the letter e is followed by digits (after an optional sign). With no
  such prefix the result is NaN.
\<close>

definition parseFloat :: "string \<Rightarrow> number" where
  "parseFloat s =
     (let t = dropWhile is_ws s;
          neg = (take 1 t = ''-'');
          u = (if take 1 t = ''+'' \<or> take 1 t = ''-'' then drop 1 t else t)
      in if startsWith u ''Infinity'' then (if neg then NegInf else PosInf)
         else
           (let ip = takeWhile is_digit u;
                r = dropWhile is_digit u;
                dot = (take 1 r = ''.'');
                fp = (if dot then takeWhile is_digit (drop 1 r) else []);
                r2 = (if dot then dropWhile is_digit (drop 1 r) else r)
            in if ip = [] \<and> fp = [] then NaNv
               else
                 (let ex =
                        (if take 1 r2 = ''e'' \<or> take 1 r2 = ''E''
                         then (let r3 = drop 1 r2;
                                   eneg = (take 1 r3 = ''-'');
                                   r4 = (if take 1 r3 = ''+'' \<or> take 1 r3 = ''-''
                                         then drop 1 r3 else r3);
                                   ed = takeWhile is_digit r4
                               in if ed = [] then 0
                                  else if eneg then - int (decimal ed) else int (decimal ed))
                         else 0);
                      m = (real (decimal ip) + real (decimal fp) / 10 ^ length fp) * pow10 ex
                  in if overflow_bound \<le> m then (if neg then NegInf else PosInf)
                     else Finite (if neg then - m else m))))"

text \<open>
  \<^verbatim>\<open>parseInt(value, 16)\<close>: as \<^verbatim>\<open>parseInt(value, 10)\<close>, with a prefix \<^verbatim>\<open>0x\<close> or \<^verbatim>\<open>0X\<close> skipped
  after the sign and with hexadecimal digits of either case.
\<close>

definition is_hex_i :: "char \<Rightarrow> bool" where
  "is_hex_i c = (c \<in> set ''0123456789abcdefABCDEF'')"

definition hex_val :: "char \<Rightarrow> nat" where
  "hex_val c =
     (case map_of (zip ''0123456789abcdefABCDEF''
                       [0, 1, 2, 3, 4, 5, 6, 7, 8, 9, 10, 11, 12, 13, 14, 15,
                        10, 11, 12, 13, 14, 15]) c of
        Some d \<Rightarrow> d | None \<Rightarrow> 0)"

definition hexadecimal :: "string \<Rightarrow> nat" where
  "hexadecimal ds = foldl (\<lambda>n c. 16 * n + hex_val c) 0 ds"

definition parseInt16 :: "string \<Rightarrow> int option" where
  "parseInt16 s =
     (let S = dropWhile is_ws s;
          sign = (if take 1 S = ''-'' then - 1 else 1);
          S' = (if take 1 S = ''+'' \<or> take 1 S = ''-'' then drop 1 S else S);
          S'' = (if take 2 S' = ''0x'' \<or> take 2 S' = ''0X'' then drop 2 S' else S');
          Z = takeWhile is_hex_i S''
      in if Z = [] then None else Some (sign * int (hexadecimal Z)))"

text \<open>
  \<^verbatim>\<open>normalizeHex\<close>: the regular expression \<^verbatim>\<open>/^#([0-9a-f]{3}|[0-9a-f]{6})$/i\<close> ignores the
  case of the digits; the result is in lower case, with the three-digit form doubled.
\<close>

definition normalizeHex :: "string \<Rightarrow> error + string" where
  "normalizeHex v =
     (case v of
        [] \<Rightarrow> Inl InvalidHexColor
      | c # g \<Rightarrow>
          if c = CHR ''#'' \<and> (length g = 3 \<or> length g = 6) \<and> list_all is_hex_i g
          then (if length g = 3
                then Inr (''#'' @ toLowerCase (concat (map (\<lambda>char. [char, char]) g)))
                else Inr (toLowerCase v))
          else Inl InvalidHexColor)"

text \<open>
  \<^verbatim>\<open>hexToRgb\<close>. The three slices of a normalized colour are pairs of hexadecimal
  digits, for which \<^verbatim>\<open>parseInt\<close> never gives NaN (lemma \<open>hexToRgb_hex6\<close> below); the
  model has no NaN channel and sends that unreachable case to the error.
\<close>

definition hexToRgb :: "string \<Rightarrow> error + (int \<times> int \<times> int)" where
  "hexToRgb hex =
     (case normalizeHex hex of
        Inl e \<Rightarrow> Inl e
      | Inr normalized \<Rightarrow>
          (let v = drop 1 normalized
           in case (parseInt16 (take 2 v), parseInt16 (take 2 (drop 2 v)),
                    parseInt16 (take 2 (drop 4 v))) of
                (Some r, Some g, Some b) \<Rightarrow> Inr (r, g, b)
              | _ \<Rightarrow> Inl InvalidHexColor))"

text \<open>
  \<^verbatim>\<open>parseRgbPart\<close>, with \<^const>\<open>None\<close> for \<^verbatim>\<open>null\<close>. \<^verbatim>\<open>value.endsWith('%')\<close> needs a last
  character; \<^verbatim>\<open>value.slice(0, -1)\<close> drops it. \<^verbatim>\<open>Math.round\<close> leaves an infinity as it
  is, and the clamp brings it to 255 or to 0.
\<close>

definition endsWithPercent :: "string \<Rightarrow> bool" where
  "endsWithPercent v = (v \<noteq> [] \<and> last v = CHR ''%'')"

definition parseRgbPart :: "string \<Rightarrow> int option" where
  "parseRgbPart v =
     (if endsWithPercent v
      then (case parseFloat (butlast v) of
              NaNv \<Rightarrow> None
            | Finite percent \<Rightarrow> Some (clamp (Math_round ((percent / 100) * 255)) 0 255)
            | PosInf \<Rightarrow> Some 255
            | NegInf \<Rightarrow> Some 0)
      else (case parseInt10 v of
              None \<Rightarrow> None
            | Some numeric \<Rightarrow> Some (clamp numeric 0 255)))"

text \<open>\<^verbatim>\<open>parsePercentage\<close>, with \<^const>\<open>None\<close> for NaN.\<close>

definition parsePercentage :: "string \<Rightarrow> real option" where
  "parsePercentage v =
     (if \<not> endsWithPercent v then None
      else (case parseFloat (butlast v) of
              NaNv \<Rightarrow> None
            | Finite numeric \<Rightarrow> Some (clamp (numeric / 100) 0 1)
            | PosInf \<Rightarrow> Some 1
            | NegInf \<Rightarrow> Some 0))"

text \<open>
  The remainder \<^verbatim>\<open>a % b\<close> has the sign of the dividend. \<^verbatim>\<open>hueToRgb\<close> gets the hue as a
  number or as NaN (\<^const>\<open>None\<close>): every comparison with NaN is false, so that NaN
  falls through to the last \<^verbatim>\<open>return p\<close>.
\<close>

definition js_mod :: "real \<Rightarrow> real \<Rightarrow> real" where
  "js_mod a b = a - b * real_of_int (if 0 \<le> a / b then \<lfloor>a / b\<rfloor> else \<lceil>a / b\<rceil>)"

definition hueToRgb :: "real \<Rightarrow> real \<Rightarrow> real option \<Rightarrow> real" where
  "hueToRgb p q t =
     (case t of
        None \<Rightarrow> p
      | Some t0 \<Rightarrow>
          (let temp1 = (if t0 < 0 then t0 + 1 else t0);
               temp = (if 1 < temp1 then temp1 - 1 else temp1)
           in if temp < 1 / 6 then p + (q - p) * 6 * temp
              else if temp < 1 / 2 then q
              else if temp < 2 / 3 then p + (q - p) * (2 / 3 - temp) * 6
              else p))"

text \<open>
  \<^verbatim>\<open>hslToRgb\<close>: the hue in degrees is a number or an infinity (whose remainder is
  NaN); saturation and lightness are numbers between 0 and 1.
\<close>

definition hslToRgb :: "number \<Rightarrow> real \<Rightarrow> real \<Rightarrow> int \<times> int \<times> int" where
  "hslToRgb hDegrees s l =
     (let h = (case hDegrees of
                 Finite d \<Rightarrow> Some (js_mod (js_mod d 360 + 360) 360 / 360)
               | _ \<Rightarrow> None)
      in if s = 0 then (let gray = Math_round (l * 255) in (gray, gray, gray))
         else
           (let q = (if l < 0.5 then l * (1 + s) else l + s - l * s);
                p = 2 * l - q;
                r = hueToRgb p q (map_option (\<lambda>h. h + 1 / 3) h);
                g = hueToRgb p q h;
                b = hueToRgb p q (map_option (\<lambda>h. h - 1 / 3) h)
            in (Math_round (r * 255), Math_round (g * 255), Math_round (b * 255))))"

text \<open>
  \<^verbatim>\<open>colorToRgb\<close>, with \<^const>\<open>None\<close> for \<^verbatim>\<open>null\<close>. The hexadecimal form comes before the
  functional notations, and the table of names last. \<^verbatim>\<open>parts.slice(0, 3)\<close> is the
  first three parts.
\<close>

definition colorToRgb :: "color_table \<Rightarrow> string \<Rightarrow> error + (int \<times> int \<times> int) option" where
  "colorToRgb CSS_COLORS color =
     (let trimmed = toLowerCase (trim color)
      in if trimmed = ''transparent'' then Inr None
         else
           (case match_hex trimmed of
              Some _ \<Rightarrow> (case hexToRgb trimmed of Inl e \<Rightarrow> Inl e | Inr rgb \<Rightarrow> Inr (Some rgb))
            | None \<Rightarrow>
                (case match_func ''rgb'' trimmed of
                   Some g \<Rightarrow>
                     (let parts = map trim (split_on CHR '','' g)
                      in if length parts < 3 then Inr None
                         else (case map parseRgbPart (take 3 parts) of
                                 [Some r, Some g, Some b] \<Rightarrow> Inr (Some (r, g, b))
                               | _ \<Rightarrow> Inr None))
                 | None \<Rightarrow>
                     (case match_func ''hsl'' trimmed of
                        Some g \<Rightarrow>
                          (let parts = map trim (split_on CHR '','' g)
                           in if length parts < 3 then Inr None
                              else
                                (let h = parseFloat (parts ! 0);
                                     s = parsePercentage (parts ! 1);
                                     l = parsePercentage (parts ! 2)
                                 in case (h, s, l) of
                                      (NaNv, _, _) \<Rightarrow> Inr None
                                    | (_, None, _) \<Rightarrow> Inr None
                                    | (_, _, None) \<Rightarrow> Inr None
                                    | (h0, Some s0, Some l0) \<Rightarrow> Inr (Some (hslToRgb h0 s0 l0))))
                      | None \<Rightarrow>
                          (case CSS_COLORS trimmed of
                             Some named \<Rightarrow>
                               (case hexToRgb named of
                                  Inl e \<Rightarrow> Inl e
                                | Inr rgb \<Rightarrow> Inr (Some rgb))
                           | None \<Rightarrow> Inr None)))))"

text \<open>
  \<^verbatim>\<open>rgbToLuminance\<close>: \<^verbatim>\<open>Math.pow(b, 2.4)\<close> on a positive base is the real power.
\<close>

definition rgbToLuminance :: "int \<times> int \<times> int \<Rightarrow> real" where
  "rgbToLuminance rgb =
     (case rgb of
        (r, g, b) \<Rightarrow>
          (let channels =
                 map (\<lambda>channel.
                        (let scaled = real_of_int channel / 255
                         in if scaled \<le> 0.03928 then scaled / 12.92
                            else ((scaled + 0.055) / 1.055) powr 2.4))
                     [r, g, b]
           in 0.2126 * channels ! 0 + 0.7152 * channels ! 1 + 0.0722 * channels ! 2))"

definition relativeLuminance :: "string \<Rightarrow> error + real" where
  "relativeLuminance hex =
     (case hexToRgb hex of Inl e \<Rightarrow> Inl e | Inr rgb \<Rightarrow> Inr (rgbToLuminance rgb))"

text \<open>\<^verbatim>\<open>autoContrast\<close>: the first test compares the argument as it is given.\<close>

definition autoContrast :: "color_table \<Rightarrow> string \<Rightarrow> error + string" where
  "autoContrast CSS_COLORS bg =
     (if bg = ''transparent'' then Inr ''#111111''
      else (case colorToRgb CSS_COLORS bg of
              Inl e \<Rightarrow> Inl e
            | Inr None \<Rightarrow> Inr ''#111111''
            | Inr (Some rgb) \<Rightarrow>
                (let luminance = rgbToLuminance rgb
                 in Inr (if 0.55 < luminance then ''#111111'' else ''#ffffff''))))"

section \<open>The renderer (svg.ts)\<close>

text \<open>
  Numbers are modelled as real numbers: the rounding of doubles, the negative zero,
  NaN and the infinities are not modelled in the renderer. A template literal turns
  a number into text with the conversion of the language, \<^verbatim>\<open>String(x)\<close>; that
  conversion is the parameter \<open>toStr\<close> of every function that writes a number.
\<close>

datatype Align = Center | Left | Right

definition DEFAULT_FONT :: string where
  "DEFAULT_FONT =
     ''system-ui, -apple-system, BlinkMacSystemFont, \"Segoe UI\", sans-serif''"

definition alignToAnchor :: "Align \<Rightarrow> string" where
  "alignToAnchor align = (case align of Left \<Rightarrow> ''start'' | Right \<Rightarrow> ''end'' | Center \<Rightarrow> ''middle'')"

record TextOptions =
  x' :: real
  yStart :: real
  lineHeight :: real
  fill :: string
  anchor :: string
  fontFamily :: string
  fontSize :: real
  fontWeight :: "string option"

text \<open>
  \<^verbatim>\<open>buildText\<close>; the field \<^verbatim>\<open>x\<close> of its options is \<open>x'\<close> here. \<^verbatim>\<open>lines.map((line, index) => ...).join('')\<close> is the concatenation of
  the elements, one per line with its index; \<^verbatim>\<open>fontWeight ? ... : ''\<close> takes the
  second branch for \<^verbatim>\<open>undefined\<close> and for the empty string.
\<close>

definition buildText :: "(real \<Rightarrow> string) \<Rightarrow> string list \<Rightarrow> TextOptions \<Rightarrow> string" where
  "buildText toStr lines options =
     (let offset = lineHeight options * (real (length lines) - 1) * 0.5;
          baseY = yStart options - offset;
          tspans =
            concat (map (\<lambda>(line, index).
                      (let y = baseY + real index * lineHeight options
                       in ''<tspan x=\"'' @ toStr (x' options) @ ''\" y=\"'' @ toStr y @ ''\">'' @
                          escapeXML line @ ''</tspan>''))
                    (zip lines [0..<length lines]));
          weightAttr =
            (case fontWeight options of
               None \<Rightarrow> []
             | Some w \<Rightarrow> if w = [] then [] else '' font-weight=\"'' @ escapeXML w @ ''\"'')
      in ''<text x=\"'' @ toStr (x' options) @ ''\" fill=\"'' @ fill options @
         ''\" text-anchor=\"'' @ anchor options @
         ''\" font-family=\"'' @ escapeXML (fontFamily options) @
         ''\" font-size=\"'' @ toStr (fontSize options) @
         ''\" dominant-baseline=\"middle\"'' @ weightAttr @ ''>'' @ tspans @ ''</text>'')"

text \<open>\<^verbatim>\<open>!radius\<close> holds for zero; \<^verbatim>\<open>!stroke\<close> for \<^verbatim>\<open>undefined\<close> and the empty string.\<close>

definition roundCornerAttr :: "(real \<Rightarrow> string) \<Rightarrow> real \<Rightarrow> string" where
  "roundCornerAttr toStr radius =
     (if radius = 0 then []
      else '' rx=\"'' @ toStr radius @ ''\" ry=\"'' @ toStr radius @ ''\"'')"

definition strokeAttributes :: "(real \<Rightarrow> string) \<Rightarrow> string option \<Rightarrow> real \<Rightarrow> string" where
  "strokeAttributes toStr stroke strokeWidth =
     (case stroke of
        None \<Rightarrow> []
      | Some s \<Rightarrow>
          if s = [] \<or> strokeWidth = 0 then []
          else '' stroke=\"'' @ s @ ''\" stroke-width=\"'' @ toStr strokeWidth @ ''\"'')"

definition shadowAttr :: "bool \<Rightarrow> string" where
  "shadowAttr shadow = (if shadow then '' filter=\"url(#dropShadow)\"'' else [])"

definition buildShadowFilter :: string where
  "buildShadowFilter =
     ''<defs><filter id=\"dropShadow\" x=\"-20%\" y=\"-20%\" width=\"140%\" height=\"140%\">'' @
     ''<feDropShadow dx=\"0\" dy=\"2\" stdDeviation=\"3\" flood-opacity=\"0.25\"/></filter></defs>''"

record RectOptions =
  width :: real
  height :: real
  background :: string
  radius :: real
  stroke :: "string option"
  strokeWidth :: real
  shadow :: bool

definition buildRect :: "(real \<Rightarrow> string) \<Rightarrow> RectOptions \<Rightarrow> string" where
  "buildRect toStr options =
     (if background options = ''transparent''
      then ''<rect width=\"'' @ toStr (width options) @ ''\" height=\"'' @
           toStr (height options) @ ''\" fill=\"none\"'' @
           roundCornerAttr toStr (radius options) @
           strokeAttributes toStr (stroke options) (strokeWidth options) @
           shadowAttr (shadow options) @ '' />''
      else ''<rect width=\"'' @ toStr (width options) @ ''\" height=\"'' @
           toStr (height options) @ ''\" fill=\"'' @ background options @ ''\"'' @
           roundCornerAttr toStr (radius options) @
           strokeAttributes toStr (stroke options) (strokeWidth options) @
           shadowAttr (shadow options) @ '' />'')"

record SvgOptions =
  width :: real
  height :: real
  background :: string
  foreground :: string
  text' :: "string option"
  fontFamily :: "string option"
  fontSize :: real
  fontWeight :: "string option"
  pad :: real
  align :: Align
  wrap :: bool
  scale :: "real option"
  radius :: "real option"
  stroke :: "string option"
  strokeWidth :: "real option"
  shadow :: "bool option"

text \<open>
  \<^verbatim>\<open>buildSVG\<close>. The destructuring gives \<^verbatim>\<open>scale\<close>, \<^verbatim>\<open>radius\<close>, \<^verbatim>\<open>strokeWidth\<close> and \<^verbatim>\<open>shadow\<close>
  their defaults. \<^verbatim>\<open>text ? wrapText(...) : []\<close> takes the second branch for
  \<^verbatim>\<open>undefined\<close> and for the empty string, while \<^verbatim>\<open>text ?? ...\<close> falls back for
  \<^verbatim>\<open>undefined\<close> only. \<^verbatim>\<open>[...].filter(Boolean).join('')\<close> drops the empty strings and
  concatenates the rest. The result is \<^const>\<open>None\<close> when \<^verbatim>\<open>wrapText\<close> does not
  return.
\<close>

definition buildSVG :: "(real \<Rightarrow> string) \<Rightarrow> SvgOptions \<Rightarrow> string option" where
  "buildSVG toStr options =
     (let scale = (case scale options of None \<Rightarrow> 1 | Some s \<Rightarrow> s);
          radius = (case radius options of None \<Rightarrow> 0 | Some r \<Rightarrow> r);
          strokeWidth = (case strokeWidth options of None \<Rightarrow> 0 | Some w \<Rightarrow> w);
          shadow = (case shadow options of None \<Rightarrow> False | Some b \<Rightarrow> b);
          clampedScale = max 1 (min scale 4);
          scaledWidth = max 1 (real_of_int (Math_round (width options * clampedScale)));
          scaledHeight = max 1 (real_of_int (Math_round (height options * clampedScale)));
          scaledPad = max 0 (pad options * clampedScale);
          effectiveFontSize = fontSize options * clampedScale;
          lineHeight = effectiveFontSize * 1.2;
          availableWidth = max 0 (scaledWidth - scaledPad * 2)
      in case (case text' options of
                 None \<Rightarrow> Some []
               | Some t \<Rightarrow>
                   if t = [] then Some []
                   else wrapText \<lparr>WrapOptions.text' = t, maxWidth = availableWidth,
                          WrapOptions.fontSize = effectiveFontSize,
                          WrapOptions.wrap = wrap options, maxLines = None\<rparr>) of
           None \<Rightarrow> None
         | Some lines \<Rightarrow>
             (let anchor = alignToAnchor (align options);
                  textX = (if align options = Center then scaledWidth / 2
                           else if align options = Left then scaledPad
                           else scaledWidth - scaledPad);
                  textElements =
                    (if lines = [] then []
                     else buildText toStr lines
                            \<lparr>x' = textX, yStart = scaledHeight / 2, lineHeight = lineHeight,
                             fill = foreground options, anchor = anchor,
                             TextOptions.fontFamily =
                               (case fontFamily options of None \<Rightarrow> DEFAULT_FONT | Some f \<Rightarrow> f),
                             TextOptions.fontSize = effectiveFontSize,
                             TextOptions.fontWeight = fontWeight options\<rparr>);
                  rectAttributes =
                    buildRect toStr
                      \<lparr>RectOptions.width = scaledWidth, RectOptions.height = scaledHeight,
                       RectOptions.background = background options,
                       RectOptions.radius = radius, RectOptions.stroke = stroke options,
                       RectOptions.strokeWidth = strokeWidth, RectOptions.shadow = shadow\<rparr>;
                  filterDefs = (if shadow then buildShadowFilter else [])
              in Some (concat (filter (\<lambda>s. s \<noteq> [])
                   [''<svg xmlns=\"http://www.w3.org/2000/svg\" width=\"'' @
                      toStr (width options) @ ''\" height=\"'' @ toStr (height options) @
                      ''\" viewBox=\"0 0 '' @ toStr scaledWidth @ '' '' @ toStr scaledHeight @
                      ''\" role=\"img\" aria-label=\"'' @
                      escapeXML (case text' options of
                                   None \<Rightarrow> toStr (width options) @ ''x'' @ toStr (height options)
                                 | Some t \<Rightarrow> t) @ ''\">'',
                    filterDefs,
                    rectAttributes,
                    textElements,
                    ''</svg>'']))))"

section \<open>The request handler (index.ts)\<close>

definition DEFAULT_BACKGROUND :: string where
  "DEFAULT_BACKGROUND = ''#dddddd''"

definition MAX_TEXT_LENGTH :: nat where
  "MAX_TEXT_LENGTH = 120"

definition clampText :: "string \<Rightarrow> string" where
  "clampText v =
     (if v = [] then []
      else if length v \<le> MAX_TEXT_LENGTH then v
      else if MAX_TEXT_LENGTH \<le> 3 then replicate MAX_TEXT_LENGTH CHR ''.''
      else take (MAX_TEXT_LENGTH - 3) v @ ''...'')"

text \<open>
  \<^verbatim>\<open>parseFloatSafe\<close>: a finite number, or NaN (\<^const>\<open>None\<close>) for \<^verbatim>\<open>null\<close>, for the empty
  string and for whatever \<^verbatim>\<open>parseFloat\<close> does not read as a finite number.
\<close>

definition parseFloatSafe :: "string option \<Rightarrow> real option" where
  "parseFloatSafe v =
     (case v of
        None \<Rightarrow> None
      | Some s \<Rightarrow>
          if s = [] then None
          else (case parseFloat s of Finite numeric \<Rightarrow> Some numeric | _ \<Rightarrow> None))"

definition parseAlign :: "string option \<Rightarrow> Align" where
  "parseAlign v =
     (let s = toLowerCase (case v of None \<Rightarrow> [] | Some a \<Rightarrow> a)
      in if s = ''left'' then Left else if s = ''right'' then Right else Center)"

definition parseBoolean :: "string option \<Rightarrow> bool" where
  "parseBoolean v =
     (case v of
        None \<Rightarrow> False
      | Some s \<Rightarrow>
          if s = [] then False
          else (let normalized = toLowerCase s
                in normalized = ''true'' \<or> normalized = ''1'' \<or> normalized = ''yes''))"

text \<open>\<^verbatim>\<open>clampNumber\<close>: the value is a number or NaN (\<^const>\<open>None\<close>).\<close>

definition clampNumber :: "real option \<Rightarrow> real \<Rightarrow> real \<Rightarrow> real" where
  "clampNumber v lo hi = (case v of None \<Rightarrow> lo | Some x \<Rightarrow> min (max x lo) hi)"

text \<open>
  \<^verbatim>\<open>hashString\<close>. \<^verbatim>\<open>TextEncoder.encode\<close> gives the UTF-8 bytes: one byte for a code unit
  below U+0080 and two for the others up to U+00FF. The digest
  \<^verbatim>\<open>crypto.subtle.digest('SHA-256', data)\<close> belongs to the platform: it is the parameter
  \<open>sha256\<close>, from bytes to bytes (a byte is a natural number below 256).
  \<^verbatim>\<open>byte.toString(16)\<close> writes the hexadecimal digits in lower case.
\<close>

definition utf8 :: "string \<Rightarrow> nat list" where
  "utf8 s =
     concat (map (\<lambda>c. (let n = (of_char c :: nat)
                         in if n < 128 then [n] else [192 + n div 64, 128 + n mod 64])) s)"

fun toString16 :: "nat \<Rightarrow> string" where
  "toString16 n =
     (if n < 16 then [''0123456789abcdef'' ! n]
      else toString16 (n div 16) @ [''0123456789abcdef'' ! (n mod 16)])"

declare toString16.simps [simp del]

definition padStart2 :: "string \<Rightarrow> string" where
  "padStart2 s = replicate (2 - length s) CHR ''0'' @ s"

definition hashString :: "(nat list \<Rightarrow> nat list) \<Rightarrow> string \<Rightarrow> string" where
  "hashString sha256 v =
     (let data = utf8 v;
          bytes = sha256 data
      in take 32 (concat (map (\<lambda>byte. padStart2 (toString16 byte)) bytes)))"

text \<open>
  \<^verbatim>\<open>JSON.stringify\<close> of a string: the text in double quotes, with the quote, the
  backslash and the control characters escaped.
\<close>

definition json_char :: "char \<Rightarrow> string" where
  "json_char c =
     (if c = CHR 0x22 then [CHR 0x5C, CHR 0x22]
      else if c = CHR 0x5C then [CHR 0x5C, CHR 0x5C]
      else if c = CHR 0x08 then [CHR 0x5C, CHR ''b'']
      else if c = CHR 0x09 then [CHR 0x5C, CHR ''t'']
      else if c = CHR 0x0A then [CHR 0x5C, CHR ''n'']
      else if c = CHR 0x0C then [CHR 0x5C, CHR ''f'']
      else if c = CHR 0x0D then [CHR 0x5C, CHR ''r'']
      else if (of_char c :: nat) < 32
      then [CHR 0x5C, CHR ''u'', CHR ''0'', CHR ''0''] @ padStart2 (toString16 (of_char c))
      else [c])"

definition json_string :: "string \<Rightarrow> string" where
  "json_string s = [CHR 0x22] @ concat (map json_char s) @ [CHR 0x22]"

text \<open>
  The object whose text is hashed: the resolved configuration. \<^verbatim>\<open>text\<close> is \<open>text'\<close>
  here; a field that may be \<^verbatim>\<open>undefined\<close> is an option.
\<close>

record EtagPayload =
  width :: real
  height :: real
  background :: string
  foreground :: string
  text' :: string
  fontFamily :: "string option"
  fontSize :: real
  pad :: real
  fontWeight :: "string option"
  align :: Align
  wrap :: bool
  scale :: real
  radius :: real
  stroke :: "string option"
  strokeWidth :: "real option"
  shadow :: bool

text \<open>
  \<^verbatim>\<open>JSON.stringify\<close> of that object: the members in the order of the object literal,
  without the members whose value is \<^verbatim>\<open>undefined\<close>; a number is written by the
  conversion \<open>toStr\<close>, a truth value as \<^verbatim>\<open>true\<close> or \<^verbatim>\<open>false\<close>.
\<close>

definition json_member :: "string \<Rightarrow> string \<Rightarrow> string" where
  "json_member k v = json_string k @ '':'' @ v"

definition json_bool :: "bool \<Rightarrow> string" where
  "json_bool b = (if b then ''true'' else ''false'')"

definition align_name :: "Align \<Rightarrow> string" where
  "align_name a = (case a of Left \<Rightarrow> ''left'' | Right \<Rightarrow> ''right'' | Center \<Rightarrow> ''center'')"

definition stringify :: "(real \<Rightarrow> string) \<Rightarrow> EtagPayload \<Rightarrow> string" where
  "stringify toStr p =
     ''{'' @
     join '',''
       ([json_member ''width'' (toStr (width p)),
         json_member ''height'' (toStr (height p)),
         json_member ''background'' (json_string (background p)),
         json_member ''foreground'' (json_string (foreground p)),
         json_member ''text'' (json_string (text' p))] @
        (case fontFamily p of None \<Rightarrow> [] | Some f \<Rightarrow> [json_member ''fontFamily'' (json_string f)]) @
        [json_member ''fontSize'' (toStr (fontSize p)),
         json_member ''pad'' (toStr (pad p))] @
        (case fontWeight p of None \<Rightarrow> [] | Some w \<Rightarrow> [json_member ''fontWeight'' (json_string w)]) @
        [json_member ''align'' (json_string (align_name (align p))),
         json_member ''wrap'' (json_bool (wrap p)),
         json_member ''scale'' (toStr (scale p)),
         json_member ''radius'' (toStr (radius p))] @
        (case stroke p of None \<Rightarrow> [] | Some s \<Rightarrow> [json_member ''stroke'' (json_string s)]) @
        (case strokeWidth p of None \<Rightarrow> [] | Some w \<Rightarrow> [json_member ''strokeWidth'' (toStr w)]) @
        [json_member ''shadow'' (json_bool (shadow p))]) @
     ''}''"

record RenderOptions =
  width :: real
  height :: real
  background :: string
  foreground :: string
  scale :: real
  searchParams :: "string \<Rightarrow> string option"

text \<open>
  \<^verbatim>\<open>renderSvg\<close>, in two steps. The first resolves the options and the query parameters
  into the configuration (\<^verbatim>\<open>searchParams.get\<close> is the function \<open>searchParams\<close>, with
  \<^const>\<open>None\<close> for \<^verbatim>\<open>null\<close>); it fails when the stroke colour does not parse. The values
  it clamps are finite, so \<^verbatim>\<open>clampNumber\<close> is never given NaN here.
\<close>

definition resolveConfig :: "color_table \<Rightarrow> RenderOptions \<Rightarrow> error + EtagPayload" where
  "resolveConfig CSS_COLORS options =
     (let get = searchParams options;
          w = width options;
          h = height options;
          textParam = get ''says'';
          rawText = (case textParam of None \<Rightarrow> [] | Some t \<Rightarrow> if t = [] then [] else trim t);
          txt = clampText rawText;
          fontFamily = (case get ''font'' of
                          None \<Rightarrow> None
                        | Some f \<Rightarrow> if trim f = [] then None else Some (trim f));
          fontWeight = (case get ''weight'' of
                          None \<Rightarrow> None
                        | Some f \<Rightarrow> if trim f = [] then None else Some (trim f));
          sizeParam = parseFloatSafe (get ''size'');
          padParam = parseFloatSafe (get ''pad'');
          radiusParam = parseFloatSafe (get ''radius'');
          strokeParam = get ''stroke'';
          strokeWidthParam = parseFloatSafe (get ''sw'');
          shadow = parseBoolean (get ''shadow'');
          baseSize = min w h / 6;
          fontSize = clampNumber (Some (case sizeParam of Some v \<Rightarrow> v | None \<Rightarrow> baseSize)) 12 128;
          pad = clampNumber (Some (case padParam of Some v \<Rightarrow> v | None \<Rightarrow> 0)) 0 (min w h / 2);
          radius = clampNumber (Some (case radiusParam of Some v \<Rightarrow> v | None \<Rightarrow> 0)) 0
                     (min w h / 2)
      in case (case strokeParam of
                 None \<Rightarrow> Inr None
               | Some s \<Rightarrow>
                   if s = [] then Inr None
                   else (case parseColor CSS_COLORS s of
                           Inl e \<Rightarrow> Inl e
                         | Inr c \<Rightarrow> Inr (Some c))) of
           Inl e \<Rightarrow> Inl e
         | Inr strokeColor \<Rightarrow>
             (let strokeWidth =
                    clampNumber (Some (case strokeWidthParam of Some v \<Rightarrow> v | None \<Rightarrow> 0)) 0
                      (min w h / 5);
                  align = parseAlign (get ''align'');
                  wrap = parseBoolean (get ''wrap'')
              in Inr \<lparr>EtagPayload.width = w, EtagPayload.height = h,
                      EtagPayload.background = background options,
                      EtagPayload.foreground = foreground options,
                      text' = txt, fontFamily = fontFamily, fontSize = fontSize, pad = pad,
                      fontWeight = fontWeight, align = align, wrap = wrap,
                      EtagPayload.scale = scale options,
                      radius = radius * scale options, stroke = strokeColor,
                      strokeWidth = (if strokeWidth = 0 then None
                                     else Some (strokeWidth * scale options)),
                      shadow = shadow\<rparr>))"

text \<open>
  The second step renders the configuration and takes its fingerprint. \<^verbatim>\<open>text || undefined\<close>
  is \<^verbatim>\<open>undefined\<close> for the empty caption. The result is \<^const>\<open>None\<close> when
  \<^verbatim>\<open>buildSVG\<close> does not return.
\<close>

definition svgOptions :: "EtagPayload \<Rightarrow> SvgOptions" where
  "svgOptions p =
     \<lparr>SvgOptions.width = EtagPayload.width p, SvgOptions.height = EtagPayload.height p,
      SvgOptions.background = EtagPayload.background p,
      SvgOptions.foreground = EtagPayload.foreground p,
      SvgOptions.text' = (if EtagPayload.text' p = [] then None else Some (EtagPayload.text' p)),
      SvgOptions.fontFamily = EtagPayload.fontFamily p,
      SvgOptions.fontSize = EtagPayload.fontSize p,
      SvgOptions.fontWeight = EtagPayload.fontWeight p,
      SvgOptions.pad = EtagPayload.pad p, SvgOptions.align = EtagPayload.align p,
      SvgOptions.wrap = EtagPayload.wrap p, SvgOptions.scale = Some (EtagPayload.scale p),
      SvgOptions.radius = Some (EtagPayload.radius p),
      SvgOptions.stroke = EtagPayload.stroke p,
      SvgOptions.strokeWidth = EtagPayload.strokeWidth p,
      SvgOptions.shadow = Some (EtagPayload.shadow p)\<rparr>"

definition etagOf :: "(real \<Rightarrow> string) \<Rightarrow> (nat list \<Rightarrow> nat list) \<Rightarrow> EtagPayload \<Rightarrow> string" where
  "etagOf toStr sha256 p =
     (let etagPayload = stringify toStr p;
          etagHash = hashString sha256 etagPayload
      in [CHR 0x22] @ etagHash @ [CHR 0x22])"

definition renderSvg ::
  "(real \<Rightarrow> string) \<Rightarrow> (nat list \<Rightarrow> nat list) \<Rightarrow> color_table \<Rightarrow> RenderOptions \<Rightarrow>
     (error + string \<times> string) option" where
  "renderSvg toStr sha256 CSS_COLORS options =
     (case resolveConfig CSS_COLORS options of
        Inl e \<Rightarrow> Some (Inl e)
      | Inr p \<Rightarrow>
          (case buildSVG toStr (svgOptions p) of
             None \<Rightarrow> None
           | Some svg \<Rightarrow> Some (Inr (svg, etagOf toStr sha256 p))))"

text \<open>
  A request, after \<^verbatim>\<open>new URL(request.url)\<close>: its method, the path segments that are
  not empty, decoded (\<^verbatim>\<open>lookup\<close>), the query parameters and the header
  \<^verbatim>\<open>If-None-Match\<close>. The parsing of the URL and \<^verbatim>\<open>decodeURIComponent\<close> belong to the
  platform and are not modelled. A response is a status, the headers in the order
  they are set, and a body (\<open>body'\<close>) or \<^verbatim>\<open>null\<close>.
\<close>

record Request =
  method' :: string
  lookup :: "string list"
  query :: "string \<Rightarrow> string option"
  ifNoneMatch :: "string option"

record Response =
  status :: nat
  headers :: "(string \<times> string) list"
  body' :: "string option"

definition buildHeaders :: "(string \<times> string) list \<Rightarrow> (string \<times> string) list" where
  "buildHeaders extra = [(''Access-Control-Allow-Origin'', ''*'')] @ extra"

definition error_message :: "error \<Rightarrow> string" where
  "error_message e =
     (case e of
        InvalidDimensions \<Rightarrow> ''Invalid dimensions''
      | InvalidColor \<Rightarrow> ''Invalid color''
      | InvalidHexColor \<Rightarrow> ''Invalid hex color'')"

definition usageResponse :: "string option \<Rightarrow> Response" where
  "usageResponse message =
     \<lparr>status = 400,
      headers = buildHeaders [(''Content-Type'', ''text/plain; charset=utf-8'')],
      body' = Some (join [CHR 0x0A]
               (filter (\<lambda>s. s \<noteq> [])
                  [''Usage: /:widthxheight/:bg?/:fg?'',
                   ''Example: /600x300/red/white?says=Hello+World'',
                   (case message of
                      None \<Rightarrow> []
                    | Some m \<Rightarrow> if m = [] then [] else ''Error: '' @ m)]))\<rparr>"

text \<open>
  The part of \<^verbatim>\<open>fetch\<close> inside \<^verbatim>\<open>try\<close>, up to the call of \<^verbatim>\<open>renderSvg\<close>: the options of
  the render, or the error thrown on the way. \<^verbatim>\<open>lookup[1]\<close> and \<^verbatim>\<open>lookup[2]\<close> are
  \<^verbatim>\<open>undefined\<close> when the path is shorter.
\<close>

definition renderOptions :: "color_table \<Rightarrow> Request \<Rightarrow> error + RenderOptions" where
  "renderOptions CSS_COLORS request =
     (case parseDims (lookup request ! 0) of
        Inl e \<Rightarrow> Inl e
      | Inr d \<Rightarrow>
          (let bgSegment = (if 1 < length (lookup request) then Some (lookup request ! 1) else None);
               fgSegment = (if 2 < length (lookup request) then Some (lookup request ! 2) else None)
           in case (case bgSegment of
                      None \<Rightarrow> Inr DEFAULT_BACKGROUND
                    | Some s \<Rightarrow> parseColor CSS_COLORS s) of
                Inl e \<Rightarrow> Inl e
              | Inr bg \<Rightarrow>
                  (case (case fgSegment of
                           None \<Rightarrow> autoContrast CSS_COLORS bg
                         | Some s \<Rightarrow> parseColor CSS_COLORS s) of
                     Inl e \<Rightarrow> Inl e
                   | Inr fg \<Rightarrow>
                       Inr \<lparr>RenderOptions.width = real_of_int (Dimensions.width d),
                            RenderOptions.height = real_of_int (Dimensions.height d),
                            RenderOptions.background = bg, RenderOptions.foreground = fg,
                            RenderOptions.scale = real_of_int (parseScale (query request ''scale'')),
                            searchParams = query request\<rparr>)))"

text \<open>
  \<^verbatim>\<open>fetch\<close>. Every error thrown inside \<^verbatim>\<open>try\<close> is an \<^verbatim>\<open>Error\<close> with a message, and
  the \<^verbatim>\<open>catch\<close> answers with the usage text and that message. The result is
  \<^const>\<open>None\<close> when \<^verbatim>\<open>renderSvg\<close> does not return.
\<close>

definition fetch ::
  "(real \<Rightarrow> string) \<Rightarrow> (nat list \<Rightarrow> nat list) \<Rightarrow> color_table \<Rightarrow> Request \<Rightarrow> Response option"
  where
  "fetch toStr sha256 CSS_COLORS request =
     (if method' request = ''OPTIONS''
      then Some \<lparr>status = 204, headers = buildHeaders [], body' = None\<rparr>
      else if lookup request = [] then Some (usageResponse None)
      else
        (case renderOptions CSS_COLORS request of
           Inl e \<Rightarrow> Some (usageResponse (Some (error_message e)))
         | Inr options \<Rightarrow>
             (case renderSvg toStr sha256 CSS_COLORS options of
                None \<Rightarrow> None
              | Some (Inl e) \<Rightarrow> Some (usageResponse (Some (error_message e)))
              | Some (Inr (svg, etag)) \<Rightarrow>
                  (let responseHeaders =
                         buildHeaders
                           [(''Content-Type'', ''image/svg+xml; charset=utf-8''),
                            (''Cache-Control'', ''public, max-age=31536000, immutable''),
                            (''ETag'', etag)]
                   in if ifNoneMatch request = Some etag
                      then Some \<lparr>status = 304, headers = responseHeaders, body' = None\<rparr>
                      else if method' request = ''HEAD''
                      then Some \<lparr>status = 200, headers = responseHeaders, body' = None\<rparr>
                      else Some \<lparr>status = 200, headers = responseHeaders, body' = Some svg\<rparr>))))"

section \<open>Predicates of the statements\<close>

text \<open>
  A string is tidy when it is not empty and neither starts nor ends with white space;
  \<^verbatim>\<open>trim\<close> leaves such a string alone.
\<close>

definition tidy :: "string \<Rightarrow> bool" where
  "tidy s = (s \<noteq> [] \<and> \<not> is_ws (hd s) \<and> \<not> is_ws (last s))"

text \<open>
  What every line of \<^verbatim>\<open>wrapText\<close> satisfies under the budget \<open>cpl\<close>: it is tidy and
  within the budget; when the budget is NaN, nothing is within it, and the line is a
  single word.
\<close>

definition line_inv :: "count \<Rightarrow> string \<Rightarrow> bool" where
  "line_inv cpl l =
     (tidy l \<and> (fits (length l) cpl \<or> (cpl = NaN \<and> (\<forall>c \<in> set l. \<not> is_ws c))))"

text \<open>
  The collapse of the merged remainder to a budget of \<open>n\<close> characters, in the words
  of the specification, as amended: a text within the budget stays as it is; a longer
  one is cut to \<open>n - 3\<close> characters and gets the three-character ellipsis, or, with a
  budget of at most 3, is replaced by \<open>n\<close> dots.
\<close>

definition collapse_spec :: "string \<Rightarrow> nat \<Rightarrow> string" where
  "collapse_spec t n =
     (if length t \<le> n then t
      else if n \<le> 3 then replicate n CHR ''.''
      else take (n - 3) t @ ''...'')"

text \<open>
  The colour forms of the specification: the number sign with three or six lowercase
  hexadecimal digits, and the functional notation, a name with an optional \<^verbatim>\<open>a\<close> and a
  parenthesised body that is not empty and holds no closing parenthesis.
\<close>

definition hex_form :: "string \<Rightarrow> bool" where
  "hex_form n = (\<exists>h. n = CHR ''#'' # h \<and> (length h = 3 \<or> length h = 6) \<and> list_all is_hex h)"

definition func_form :: "string \<Rightarrow> string \<Rightarrow> bool" where
  "func_form name n =
     (\<exists>a body. n = name @ a @ ''('' @ body @ '')'' \<and> (a = [] \<or> a = ''a'') \<and>
        body \<noteq> [] \<and> CHR '')'' \<notin> set body)"

text \<open>
  The two entries of the colour table that the tests of the repository pin down
  (\<^verbatim>\<open>red\<close> and \<^verbatim>\<open>yellow\<close>), as a table to evaluate examples with.
\<close>

definition test_colors :: color_table where
  "test_colors = map_of [(''red'', ''#ff0000''), (''yellow'', ''#ffff00'')]"

text \<open>The group of the functional notation, for a body that is not empty.\<close>

definition group_of :: "string \<Rightarrow> string" where
  "group_of body = (if dropWhile is_ws body = [] then [last body] else dropWhile is_ws body)"

text \<open>
  A table in the style of the CSS colour names, as the specification describes it:
  every key is a name of lowercase letters (not the empty name), and every value is a number sign with six
  lowercase hexadecimal digits.
\<close>

definition hex6 :: "string \<Rightarrow> bool" where
  "hex6 v = (\<exists>h. v = CHR ''#'' # h \<and> length h = 6 \<and> list_all is_hex h)"

definition css_table :: "color_table \<Rightarrow> bool" where
  "css_table T =
     (\<forall>k v. T k = Some v \<longrightarrow>
        k \<noteq> [] \<and> set k \<subseteq> set ''abcdefghijklmnopqrstuvwxyz'' \<and> hex6 v)"



text \<open>
  A conversion of numbers to text to evaluate examples with: the decimal numeral of a
  natural number, as \<^verbatim>\<open>String(x)\<close> gives it; every other number is shown as a question
  mark.
\<close>

fun show_nat :: "nat \<Rightarrow> string" where
  "show_nat n =
     (if n < 10 then [''0123456789'' ! n]
      else show_nat (n div 10) @ [''0123456789'' ! (n mod 10)])"

declare show_nat.simps [simp del]

definition show_num :: "real \<Rightarrow> string" where
  "show_num v = (if 0 \<le> v \<and> real_of_int \<lfloor>v\<rfloor> = v then show_nat (nat \<lfloor>v\<rfloor>) else ''?'')"



text \<open>
  A stand-in for the digest of the platform to evaluate examples with: 32 bytes
  computed from the sum of the data.
\<close>

definition sample_digest :: "nat list \<Rightarrow> nat list" where
  "sample_digest data = map (\<lambda>i. (sum_list data + 7 * i) mod 256) [0..<32]"

section \<open>Properties\<close>

subsection \<open>Decimal digit runs\<close>

lemma decimal_snoc: "decimal (ds @ [c]) = 10 * decimal ds + digit_val c"
  by (simp add: decimal_def)

lemma digit_val_two: "is_digit c \<Longrightarrow> digit_val c = 2 \<longleftrightarrow> c = CHR ''2''"
  by (auto simp: is_digit_def digit_val_def)

lemma digit_val_zero: "is_digit c \<Longrightarrow> digit_val c = 0 \<longleftrightarrow> c = CHR ''0''"
  by (auto simp: is_digit_def digit_val_def)

lemma digit_val_lt10: "digit_val c < 10"
  by (auto simp: digit_val_def split: option.splits if_splits)

lemma decimal_zero_iff:
  "list_all is_digit ds \<Longrightarrow> decimal ds = 0 \<longleftrightarrow> set ds \<subseteq> {CHR ''0''}"
proof (induction ds rule: rev_induct)
  case Nil
  show ?case by (simp add: decimal_def)
next
  case (snoc c ds)
  then show ?case by (auto simp: decimal_snoc digit_val_zero)
qed

lemma decimal_two_iff:
  "list_all is_digit ds \<Longrightarrow>
     decimal ds = 2 \<longleftrightarrow> (\<exists>zs. ds = zs @ ''2'' \<and> set zs \<subseteq> {CHR ''0''})"
proof (induction ds rule: rev_induct)
  case Nil
  show ?case by (simp add: decimal_def)
next
  case (snoc c ds)
  have d: "is_digit c" and ds: "list_all is_digit ds" using snoc.prems by auto
  have "decimal (ds @ [c]) = 2 \<longleftrightarrow> decimal ds = 0 \<and> digit_val c = 2"
    using digit_val_lt10 [of c] unfolding decimal_snoc by arith
  also have "\<dots> \<longleftrightarrow> set ds \<subseteq> {CHR ''0''} \<and> c = CHR ''2''"
    using d ds by (simp add: decimal_zero_iff digit_val_two)
  finally show ?case by auto
qed

lemma takeWhile_digits_all: "list_all is_digit (takeWhile is_digit s)"
  by (induction s) auto

subsection \<open>What \<^verbatim>\<open>parseInt\<close> reads as the number 2\<close>

lemma dropWhile_all_append: "list_all P xs \<Longrightarrow> dropWhile P (xs @ ys) = dropWhile P ys"
  by (induction xs) auto

lemma takeWhile_all_append: "list_all P xs \<Longrightarrow> takeWhile P (xs @ ys) = xs @ takeWhile P ys"
  by (induction xs) auto

lemma dropWhile_hd_id: "ys = [] \<or> \<not> P (hd ys) \<Longrightarrow> dropWhile P ys = ys"
  by (cases ys) auto

lemma takeWhile_hd_Nil: "ys = [] \<or> \<not> P (hd ys) \<Longrightarrow> takeWhile P ys = []"
  by (cases ys) auto

lemma parseInt10_two_iff:
  "parseInt10 r = Some 2 \<longleftrightarrow>
     (\<exists>ws sg zs rest. r = ws @ sg @ zs @ ''2'' @ rest \<and> list_all is_ws ws \<and>
        (sg = [] \<or> sg = ''+'') \<and> set zs \<subseteq> {CHR ''0''} \<and>
        (rest = [] \<or> \<not> is_digit (hd rest)))"
  (is "?L \<longleftrightarrow> ?R")
proof
  assume L: ?L
  define S where "S = dropWhile is_ws r"
  define S' where "S' = (if take 1 S = ''+'' \<or> take 1 S = ''-'' then drop 1 S else S)"
  define Z where "Z = takeWhile is_digit S'"
  define sign :: int where "sign = (if take 1 S = ''-'' then - 1 else 1)"
  from L have Z: "Z \<noteq> []" and v: "sign * int (decimal Z) = 2"
    by (auto simp: parseInt10_def Let_def S_def S'_def Z_def sign_def split: if_splits)
  have sg1: "sign = 1" using v by (auto simp: sign_def split: if_splits)
  then have nm: "take 1 S \<noteq> ''-''" by (auto simp: sign_def split: if_splits)
  from v sg1 have "decimal Z = 2" by simp
  then obtain zs where zs: "Z = zs @ ''2''" "set zs \<subseteq> {CHR ''0''}"
    using decimal_two_iff [OF takeWhile_digits_all, of S'] by (auto simp: Z_def)
  define sg where "sg = (if take 1 S = ''+'' then ''+'' else [])"
  have S: "S = sg @ S'" using nm
    by (cases S) (auto simp: sg_def S'_def)
  have r: "r = takeWhile is_ws r @ S" by (simp add: S_def)
  have S'': "S' = Z @ dropWhile is_digit S'" by (simp add: Z_def)
  have rest: "dropWhile is_digit S' = [] \<or> \<not> is_digit (hd (dropWhile is_digit S'))"
    by (metis hd_dropWhile)
  have "r = takeWhile is_ws r @ sg @ zs @ ''2'' @ dropWhile is_digit S'"
    using r S S'' zs(1) by (metis append.assoc)
  moreover have "list_all is_ws (takeWhile is_ws r)"
    by (induction r) auto
  moreover have "sg = [] \<or> sg = ''+''" by (simp add: sg_def)
  ultimately show ?R using zs(2) rest by blast
next
  assume ?R
  then obtain ws sg zs rest where r: "r = ws @ sg @ zs @ ''2'' @ rest"
    and ws: "list_all is_ws ws" and sg: "sg = [] \<or> sg = ''+''"
    and zs: "set zs \<subseteq> {CHR ''0''}" and rest: "rest = [] \<or> \<not> is_digit (hd rest)"
    by blast
  have zd: "list_all is_digit zs" using zs by (auto simp: list_all_iff is_digit_def)
  have nws: "\<not> is_ws (hd (sg @ zs @ ''2'' @ rest))"
    using sg zs by (cases zs) (auto simp: is_ws_def)
  have S: "dropWhile is_ws r = sg @ zs @ ''2'' @ rest"
    unfolding r using ws nws by (simp add: dropWhile_all_append dropWhile_hd_id)
  have Z: "takeWhile is_digit (zs @ ''2'' @ rest) = zs @ ''2''"
    using zd rest by (simp add: takeWhile_all_append takeWhile_hd_Nil is_digit_def)
  have d2: "decimal (zs @ ''2'') = 2"
    using decimal_two_iff [of "zs @ ''2''"] zd zs by (simp add: is_digit_def)
  show ?L
  proof (cases "sg = []")
    case True
    have "take 1 (zs @ ''2'' @ rest) \<noteq> ''+'' \<and> take 1 (zs @ ''2'' @ rest) \<noteq> ''-''"
      using zs by (cases zs) auto
    then show ?thesis
      using S True Z d2 by (simp add: parseInt10_def Let_def)
  next
    case False
    then have "sg = ''+''" using sg by simp
    then show ?thesis
      using S Z d2 by (simp add: parseInt10_def Let_def)
  qed
qed


subsection \<open>C7: the scale option\<close>

text \<open>
  C7, as stated, says that the query value \<^verbatim>\<open>"2"\<close> resolves to scale 2 and every other
  input resolves to scale 1. \<^verbatim>\<open>parseScale\<close> reads its input with \<^verbatim>\<open>parseInt(raw, 10)\<close>,
  which skips leading white space, accepts a plus sign and leading zeros, and stops at
  the first character that is not a digit: the input \<^verbatim>\<open>"2.5"\<close> is not \<^verbatim>\<open>"2"\<close>, and it
  resolves to scale 2.
\<close>

theorem parseScale_other_input_counterexample:
  "parseScale (Some ''2.5'') = 2 \<and> ''2.5'' \<noteq> ''2''"
  by (simp add: parseScale_def parseInt10_def is_ws_def is_digit_def decimal_def digit_val_def)

text \<open>
  C7, amended: the scale is 2 exactly when the query value is present and consists of
  optional white space, an optional plus sign, any number of zeros, the digit 2, and
  then either nothing or a rest that starts with a character that is not a digit
  (that is, when \<^verbatim>\<open>parseInt(raw, 10)\<close> is 2); every other input, an absent one too,
  resolves to scale 1. The scale is never anything but 1 or 2.
\<close>

theorem parseScale_closed_enumeration:
  "parseScale raw =
     (if \<exists>ws sg zs rest. raw = Some (ws @ sg @ zs @ ''2'' @ rest) \<and> list_all is_ws ws \<and>
            (sg = [] \<or> sg = ''+'') \<and> set zs \<subseteq> {CHR ''0''} \<and>
            (rest = [] \<or> \<not> is_digit (hd rest))
      then 2 else 1)"
proof (cases raw)
  case None
  then show ?thesis by (simp add: parseScale_def)
next
  case (Some r)
  show ?thesis
  proof (cases "parseInt10 r = Some 2")
    case True
    then have "r \<noteq> []" by (auto simp: parseInt10_def)
    with True Some show ?thesis
      using parseInt10_two_iff [of r] by (simp add: parseScale_def)
  next
    case False
    then have "parseScale (Some r) = 1"
      by (auto simp: parseScale_def split: option.splits)
    with False Some show ?thesis
      using parseInt10_two_iff [of r] by simp
  qed
qed

theorem parseScale_closed_enumeration_witness:
  "parseScale (Some '' +02px'') = 2 \<and> parseScale (Some ''3'') = 1 \<and>
   parseScale (Some ''abc'') = 1 \<and> parseScale None = 1 \<and> parseScale (Some ''2'') = 2"
proof -
  have "'' +02px'' = '' '' @ ''+'' @ ''0'' @ ''2'' @ ''px'' \<and> list_all is_ws '' '' \<and>
      (''+'' = [] \<or> ''+'' = ''+'') \<and> set ''0'' \<subseteq> {CHR ''0''} \<and>
      (''px'' = [] \<or> \<not> is_digit (hd ''px''))"
    by (simp add: is_ws_def is_digit_def)
  then have "\<exists>ws sg zs rest. Some '' +02px'' = Some (ws @ sg @ zs @ ''2'' @ rest) \<and>
      list_all is_ws ws \<and> (sg = [] \<or> sg = ''+'') \<and> set zs \<subseteq> {CHR ''0''} \<and>
      (rest = [] \<or> \<not> is_digit (hd rest))"
    by blast
  then have "parseScale (Some '' +02px'') = 2"
    using parseScale_closed_enumeration [of "Some '' +02px''"] by simp
  moreover have "parseScale (Some ''3'') = 1" "parseScale (Some ''abc'') = 1"
    "parseScale None = 1" "parseScale (Some ''2'') = 2"
    by (simp_all add: parseScale_def parseInt10_def is_ws_def is_digit_def decimal_def
        digit_val_def)
  ultimately show ?thesis by simp
qed

subsection \<open>C1: dimensions\<close>

lemma digit_not_ws: "is_digit c \<Longrightarrow> \<not> is_ws c"
  by (auto simp: is_digit_def is_ws_def)

lemma takeWhile_all_id: "list_all P xs \<Longrightarrow> takeWhile P xs = xs"
  by (induction xs) auto

lemma parseInt10_digits:
  assumes "ds \<noteq> []" "list_all is_digit ds"
  shows "parseInt10 ds = Some (int (decimal ds))"
proof -
  obtain c cs where ds: "ds = c # cs" using assms(1) by (cases ds) auto
  then have c: "is_digit c" using assms(2) by simp
  then have "\<not> is_ws c" "c \<noteq> CHR ''+''" "c \<noteq> CHR ''-''"
    by (auto simp: is_digit_def is_ws_def)
  moreover have "takeWhile is_digit (c # cs) = c # cs"
    using assms(2) ds takeWhile_all_id by metis
  ultimately show ?thesis
    unfolding parseInt10_def ds Let_def by simp
qed

lemma x_not_digit: "\<not> is_digit CHR ''x''"
  by (simp add: is_digit_def)

lemma match_dims_iff:
  "match_dims s = Some (w, h) \<longleftrightarrow> s = w @ ''x'' @ h \<and> dim_digits w \<and> dim_digits h"
  (is "?L \<longleftrightarrow> ?R")
proof
  assume ?L
  then obtain c where r: "dropWhile is_digit s = c # h" and w: "w = takeWhile is_digit s"
    and ok: "1 \<le> length w" "length w \<le> 4" "c = CHR ''x''" "1 \<le> length h" "length h \<le> 4"
      "list_all is_digit h"
    by (auto simp: match_dims_def Let_def split: list.splits if_splits)
  have "s = takeWhile is_digit s @ dropWhile is_digit s" by simp
  then have "s = w @ ''x'' @ h" using r w ok(3) by simp
  moreover have "list_all is_digit w" unfolding w by (induction s) auto
  ultimately show ?R using ok by (simp add: dim_digits_def)
next
  assume R: ?R
  then have s: "s = w @ CHR ''x'' # h" and w: "list_all is_digit w" by (auto simp: dim_digits_def)
  have "takeWhile is_digit s = w" "dropWhile is_digit s = CHR ''x'' # h"
    unfolding s using w x_not_digit
    by (simp_all add: takeWhile_all_append dropWhile_all_append)
  then show ?L using R by (simp add: match_dims_def dim_digits_def)
qed

lemma match_dims_None: "match_dims s = None \<longleftrightarrow> \<not> dims_token s"
proof -
  have "dims_token s \<longleftrightarrow> (\<exists>w h. match_dims s = Some (w, h))"
    by (simp add: dims_token_def match_dims_iff)
  then show ?thesis by (cases "match_dims s") auto
qed

lemma clamp_dim: "0 \<le> n \<Longrightarrow> \<not> clamp n MIN_DIMENSION MAX_DIMENSION < MIN_DIMENSION"
  by (simp add: clamp_def MIN_DIMENSION_def MAX_DIMENSION_def)

text \<open>
  C1, amended: \<^verbatim>\<open>parseDims\<close> trims its input first. It succeeds exactly when the
  trimmed token is one to four digits, a lowercase x and one to four digits, and then
  returns the two numbers, each clamped into the range from 1 to 8000 (never
  rejected for being out of range); for every other trimmed token, an uppercase X as
  separator too, it fails with \<^verbatim>\<open>Invalid dimensions\<close>.
\<close>

theorem parseDims_trimmed_token:
  "(\<forall>w h. trim v = w @ ''x'' @ h \<and> dim_digits w \<and> dim_digits h \<longrightarrow>
       parseDims v = Inr \<lparr>Dimensions.width = min (max (int (decimal w)) 1) 8000,
                          Dimensions.height = min (max (int (decimal h)) 1) 8000\<rparr>) \<and>
   (\<not> dims_token (trim v) \<longrightarrow> parseDims v = Inl InvalidDimensions) \<and>
   ((\<exists>d. parseDims v = Inr d) \<longleftrightarrow> dims_token (trim v))"
proof -
  have a: "parseDims v = Inr \<lparr>Dimensions.width = min (max (int (decimal w)) 1) 8000,
                          Dimensions.height = min (max (int (decimal h)) 1) 8000\<rparr>"
    if t: "trim v = w @ ''x'' @ h" and w: "dim_digits w" and h: "dim_digits h" for w h
  proof -
    have m: "match_dims (trim v) = Some (w, h)" using that by (simp add: match_dims_iff)
    have pw: "parseInt10 w = Some (int (decimal w))" and ph: "parseInt10 h = Some (int (decimal h))"
      using w h by (auto simp: dim_digits_def intro!: parseInt10_digits)
    show ?thesis
      using m pw ph clamp_dim [of "int (decimal w)"] clamp_dim [of "int (decimal h)"]
      by (simp add: parseDims_def Let_def)
        (simp add: clamp_def MIN_DIMENSION_def MAX_DIMENSION_def)
  qed
  have b: "parseDims v = Inl InvalidDimensions" if "\<not> dims_token (trim v)"
  proof -
    have "match_dims (trim v) = None" using that by (simp add: match_dims_None)
    then show ?thesis by (simp add: parseDims_def Let_def)
  qed
  have c: "(\<exists>d. parseDims v = Inr d) \<longleftrightarrow> dims_token (trim v)"
  proof (cases "dims_token (trim v)")
    case True
    then show ?thesis using a by (auto simp: dims_token_def)
  next
    case False
    then show ?thesis using b by simp
  qed
  show ?thesis using a b c by blast
qed

text \<open>
  C1, as stated, says that \<^verbatim>\<open>parseDims\<close> succeeds exactly when the token itself has the
  shape. With white space around it the token does not have the shape, and
  \<^verbatim>\<open>parseDims\<close> succeeds all the same.
\<close>

lemma dims_token_hd: "dims_token s \<Longrightarrow> is_digit (hd s)"
  by (auto simp: dims_token_def dim_digits_def) (case_tac w; simp)

theorem parseDims_untrimmed_counterexample:
  "parseDims '' 600x300'' = Inr \<lparr>Dimensions.width = 600, Dimensions.height = 300\<rparr> \<and> \<not> dims_token '' 600x300''"
proof -
  have "parseDims '' 600x300'' = Inr \<lparr>Dimensions.width = 600, Dimensions.height = 300\<rparr>"
    by code_simp
  moreover have "\<not> dims_token '' 600x300''"
    using dims_token_hd [of "'' 600x300''"] by (auto simp: is_digit_def)
  ultimately show ?thesis by simp
qed


theorem parseDims_trimmed_token_witness:
  "parseDims '' 0x9999 '' = Inr \<lparr>Dimensions.width = 1, Dimensions.height = 8000\<rparr> \<and>
   parseDims ''600x300'' = Inr \<lparr>Dimensions.width = 600, Dimensions.height = 300\<rparr> \<and>
   parseDims ''600X300'' = Inl InvalidDimensions"
proof -
  have t1: "trim '' 0x9999 '' = ''0'' @ ''x'' @ ''9999''"
    and t2: "trim ''600x300'' = ''600'' @ ''x'' @ ''300''"
    and t3: "trim ''600X300'' = ''600X300''"
    by (simp_all add: trim_def is_ws_def)
  have d: "dim_digits ''0''" "dim_digits ''9999''" "dim_digits ''600''" "dim_digits ''300''"
    by (simp_all add: dim_digits_def is_digit_def)
  have "match_dims ''600X300'' = None"
    by (simp add: match_dims_def is_digit_def)
  then have n: "\<not> dims_token (trim ''600X300'')"
    by (simp add: t3 match_dims_None)
  have "parseDims '' 0x9999 '' =
      Inr \<lparr>Dimensions.width = min (max (int (decimal ''0'')) 1) 8000,
           Dimensions.height = min (max (int (decimal ''9999'')) 1) 8000\<rparr>"
    using parseDims_trimmed_token [of "'' 0x9999 ''"] t1 d by blast
  moreover have "parseDims ''600x300'' =
      Inr \<lparr>Dimensions.width = min (max (int (decimal ''600'')) 1) 8000,
           Dimensions.height = min (max (int (decimal ''300'')) 1) 8000\<rparr>"
    using parseDims_trimmed_token [of "''600x300''"] t2 d by blast
  moreover have "parseDims ''600X300'' = Inl InvalidDimensions"
    using parseDims_trimmed_token [of "''600X300''"] n by blast
  ultimately show ?thesis
    by (simp add: decimal_def digit_val_def)
qed

subsection \<open>Trimming and splitting\<close>

lemma tidy_trim: "tidy s \<Longrightarrow> trim s = s"
proof -
  assume t: "tidy s"
  then have "dropWhile is_ws s = s" by (simp add: tidy_def dropWhile_hd_id)
  moreover have "dropWhile is_ws (rev s) = rev s"
    using t by (intro dropWhile_hd_id) (simp add: tidy_def hd_rev)
  ultimately show ?thesis by (simp add: trim_def)
qed

lemma trim_tidy: "trim s \<noteq> [] \<Longrightarrow> tidy (trim s)"
proof -
  assume ne: "trim s \<noteq> []"
  define xs where "xs = dropWhile is_ws s"
  define ys where "ys = dropWhile is_ws (rev xs)"
  have t: "trim s = rev ys" by (simp add: trim_def xs_def ys_def)
  then have ys: "ys \<noteq> []" using ne by simp
  then have xs: "xs \<noteq> []" by (auto simp: ys_def)
  have "\<not> is_ws (hd ys)" using ys unfolding ys_def by (metis hd_dropWhile)
  then have l: "\<not> is_ws (last (rev ys))" using ys by (simp add: last_rev)
  have "last (takeWhile is_ws (rev xs) @ ys) = last ys" using ys by (rule last_appendR)
  then have "last (rev xs) = last ys" by (simp add: ys_def)
  then have "last ys = hd xs" using xs by (simp add: last_rev)
  moreover have "\<not> is_ws (hd xs)" using xs unfolding xs_def by (metis hd_dropWhile)
  ultimately have "\<not> is_ws (hd (rev ys))" using ys by (simp add: hd_rev)
  then show ?thesis using l ys t by (simp add: tidy_def)
qed

lemma trim_idem: "trim (trim s) = trim s"
proof (cases "trim s = []")
  case True
  have "trim [] = []" by (simp add: trim_def)
  with True show ?thesis by simp
next
  case False
  then show ?thesis by (simp add: trim_tidy tidy_trim)
qed

lemma split_ws_words:
  "tidy s \<Longrightarrow> \<forall>w \<in> set (split_ws s). w \<noteq> [] \<and> (\<forall>c \<in> set w. \<not> is_ws c)"
proof (induction s rule: split_ws.induct)
  case (1 s)
  define piece where "piece = takeWhile (\<lambda>c. \<not> is_ws c) s"
  define r where "r = dropWhile (\<lambda>c. \<not> is_ws c) s"
  have s: "s = piece @ r" by (simp add: piece_def r_def)
  have pne: "piece \<noteq> []" using "1.prems"
    by (cases s) (auto simp: piece_def tidy_def)
  have pws: "\<forall>c \<in> set piece. \<not> is_ws c"
    unfolding piece_def by (auto dest: set_takeWhileD)
  show ?case
  proof (cases "r = []")
    case True
    have "split_ws s = [piece]"
      using True by (subst split_ws.simps) (simp add: Let_def piece_def r_def)
    then show ?thesis using pne pws by simp
  next
    case False
    define r' where "r' = dropWhile is_ws r"
    have lr: "last r = last s" using s False by simp
    have "\<not> is_ws (last r)" using lr "1.prems" by (simp add: tidy_def)
    then have r'ne: "r' \<noteq> []" using False unfolding r'_def
      by (auto)
    have "last (takeWhile is_ws r @ r') = last r'" using r'ne by (rule last_appendR)
    then have "last r' = last r" by (simp add: r'_def)
    moreover have "\<not> is_ws (hd r')" using r'ne unfolding r'_def by (rule hd_dropWhile)
    ultimately have t: "tidy r'" using r'ne lr "1.prems" by (simp add: tidy_def)
    have ih: "\<forall>w \<in> set (split_ws r'). w \<noteq> [] \<and> (\<forall>c \<in> set w. \<not> is_ws c)"
      using "1.IH" [OF piece_def r_def False] t unfolding r'_def by blast
    have "split_ws s = piece # split_ws r'"
      unfolding r'_def r_def piece_def using False [unfolded r_def]
      by (subst split_ws.simps) (simp only: Let_def if_False)
    then show ?thesis using ih pne pws by simp
  qed
qed

lemma split_ws_single: "\<forall>c \<in> set s. \<not> is_ws c \<Longrightarrow> split_ws s = [s]"
proof -
  assume a: "\<forall>c \<in> set s. \<not> is_ws c"
  then have "takeWhile (\<lambda>c. \<not> is_ws c) s = s" "dropWhile (\<lambda>c. \<not> is_ws c) s = []"
    by simp_all
  then show ?thesis by (subst split_ws.simps) (simp add: Let_def)
qed


subsection \<open>\<^verbatim>\<open>chunkWord\<close> returns\<close>

lemma chunkLoop_returns:
  "0 < n \<Longrightarrow> \<exists>segs. chunkLoop w n i res = Some (res @ segs) \<and>
      (\<forall>g \<in> set segs. g \<noteq> [] \<and> length g \<le> n \<and> set g \<subseteq> set w)"
proof (induction "length w - i" arbitrary: i res rule: less_induct)
  case less
  show ?case
  proof (cases "i < length w")
    case True
    have "length w - (i + n) < length w - i" using True less.prems by arith
    from less.hyps [OF this less.prems, of "res @ [take n (drop i w)]"]
    obtain segs where s: "chunkLoop w n (i + n) (res @ [take n (drop i w)]) =
        Some ((res @ [take n (drop i w)]) @ segs)"
      and p: "\<forall>g \<in> set segs. g \<noteq> [] \<and> length g \<le> n \<and> set g \<subseteq> set w"
      by blast
    have g: "take n (drop i w) \<noteq> []" "length (take n (drop i w)) \<le> n"
      "set (take n (drop i w)) \<subseteq> set w"
      using True less.prems by (auto dest: in_set_takeD in_set_dropD)
    have "chunkLoop w n i res = Some (res @ (take n (drop i w) # segs))"
      using True s by (subst chunkLoop.simps) simp
    then show ?thesis using p g by (intro exI [of _ "take n (drop i w) # segs"]) simp
  next
    case False
    then have "chunkLoop w n i res = Some (res @ [])"
      by (subst chunkLoop.simps) simp
    then show ?thesis by (intro exI [of _ "[]"]) simp
  qed
qed

lemma chunkWord_returns:
  "0 < n \<Longrightarrow> \<exists>segs. chunkWord w n = Some segs \<and>
      (\<forall>g \<in> set segs. g \<noteq> [] \<and> length g \<le> n \<and> set g \<subseteq> set w)"
  using chunkLoop_returns [of n w 0 "[]"] by (simp add: chunkWord_def)

subsection \<open>The packing loop\<close>

lemma word_tidy: "w \<noteq> [] \<Longrightarrow> \<forall>c \<in> set w. \<not> is_ws c \<Longrightarrow> tidy w"
  by (simp add: tidy_def)

lemma word_line_inv:
  "w \<noteq> [] \<Longrightarrow> \<forall>c \<in> set w. \<not> is_ws c \<Longrightarrow> \<not> exceeds (length w) cpl \<Longrightarrow> line_inv cpl w"
  by (cases cpl) (auto simp: line_inv_def word_tidy exceeds_def fits_def)

lemma pushCurrent_inv:
  "\<forall>l \<in> set lines. line_inv cpl l \<Longrightarrow> current = [] \<or> line_inv cpl current \<Longrightarrow>
     \<forall>l \<in> set (pushCurrent lines current). line_inv cpl l"
  by (auto simp: pushCurrent_def)

lemma candidate_inv:
  assumes "current = [] \<or> line_inv cpl current" "w \<noteq> []" "\<forall>c \<in> set w. \<not> is_ws c"
    and "fits (length (if current \<noteq> [] then current @ '' '' @ w else w)) cpl"
  shows "line_inv cpl (if current \<noteq> [] then current @ '' '' @ w else w)"
proof (cases "current = []")
  case True
  then show ?thesis using assms by (simp add: line_inv_def word_tidy)
next
  case False
  then have "tidy current" using assms(1) by (simp add: line_inv_def)
  then have "tidy (current @ '' '' @ w)" using assms(2,3) by (simp add: tidy_def)
  then show ?thesis using False assms(4) by (simp add: line_inv_def)
qed

lemma pack_inv:
  assumes "cpl \<noteq> Count 0"
    and "\<forall>w \<in> set words. w \<noteq> [] \<and> (\<forall>c \<in> set w. \<not> is_ws c)"
    and "\<forall>l \<in> set lines. line_inv cpl l"
    and "current = [] \<or> line_inv cpl current"
  shows "\<exists>ls cur. pack cpl words lines current = Some (ls, cur) \<and>
           (\<forall>l \<in> set ls. line_inv cpl l) \<and> (cur = [] \<or> line_inv cpl cur)"
  using assms(2-4)
proof (induction words arbitrary: lines current)
  case Nil
  then show ?case by simp
next
  case (Cons word words)
  have w: "word \<noteq> []" "\<forall>c \<in> set word. \<not> is_ws c"
    and ws: "\<forall>w \<in> set words. w \<noteq> [] \<and> (\<forall>c \<in> set w. \<not> is_ws c)"
    using Cons.prems(1) by auto
  note pc = pushCurrent_inv [OF Cons.prems(2,3)]
  show ?case
  proof (cases "exceeds (length word) cpl")
    case True
    then obtain m where m: "cpl = Count m" "m < length word"
      by (cases cpl) (auto simp: exceeds_def)
    then have "0 < m" using assms(1) by (cases m) auto
    from chunkWord_returns [OF this, of word]
    obtain segs where s: "chunkWord word m = Some segs"
      and p: "\<forall>g \<in> set segs. g \<noteq> [] \<and> length g \<le> m \<and> set g \<subseteq> set word"
      by blast
    have "\<forall>g \<in> set segs. line_inv cpl g"
    proof
      fix g assume "g \<in> set segs"
      then have "g \<noteq> []" "length g \<le> m" "\<forall>c \<in> set g. \<not> is_ws c"
        using p w(2) by auto
      then show "line_inv cpl g" by (simp add: line_inv_def word_tidy fits_def m(1))
    qed
    then have "\<forall>l \<in> set (pushCurrent lines current @ segs). line_inv cpl l"
      using pc by auto
    from Cons.IH [OF ws this, of "[]"]
    show ?thesis using True s m(1) by simp
  next
    case False
    define candidate where "candidate = (if current \<noteq> [] then current @ '' '' @ word else word)"
    show ?thesis
    proof (cases "fits (length candidate) cpl")
      case True
      then have "line_inv cpl candidate"
        unfolding candidate_def using candidate_inv [OF Cons.prems(3) w] by simp
      from Cons.IH [OF ws Cons.prems(2), of candidate] this
      show ?thesis using False True by (simp add: candidate_def Let_def)
    next
      case nf: False
      have "line_inv cpl word" using w False by (rule word_line_inv)
      from Cons.IH [OF ws pc, of word] this
      show ?thesis using False nf by (simp add: candidate_def Let_def)
    qed
  qed
qed

subsection \<open>The final line\<close>

lemma join_tidy: "ls \<noteq> [] \<Longrightarrow> \<forall>l \<in> set ls. tidy l \<Longrightarrow> tidy (join sep ls)"
proof (induction sep ls rule: join.induct)
  case (3 sep x y ys)
  then have "tidy x" "tidy (join sep (y # ys))" by auto
  then show ?case by (simp add: tidy_def)
qed auto

lemma collapse_inv:
  assumes "cpl \<noteq> Count 0" "tidy t"
  shows "line_inv cpl (collapseWithEllipsis t cpl)"
proof (cases "fits (length t) cpl")
  case True
  then show ?thesis using assms(2) by (simp add: collapseWithEllipsis_def line_inv_def)
next
  case False
  have dot: "\<not> is_ws CHR ''.''" by (simp add: is_ws_def)
  show ?thesis
  proof (cases cpl)
    case (Count m)
    then have m: "0 < m" "m < length t" using assms(1) False by (auto simp: fits_def)
    show ?thesis
    proof (cases "m \<le> 3")
      case True
      then have "collapseWithEllipsis t cpl = replicate m CHR ''.''"
        using False Count by (simp add: collapseWithEllipsis_def at_most_three_def)
      moreover have "tidy (replicate m CHR ''.'')"
        using m(1) dot by (cases m) (auto simp: tidy_def)
      ultimately show ?thesis by (simp add: line_inv_def fits_def Count)
    next
      case gt: False
      then have c: "collapseWithEllipsis t cpl = take (m - 3) t @ ''...''"
        using False Count by (simp add: collapseWithEllipsis_def at_most_three_def)
      have "hd (take (m - 3) t @ ''...'') = hd t"
        using gt m(2) by (cases t) (auto simp: take_Cons')
      then have "tidy (take (m - 3) t @ ''...'')"
        using assms(2) dot by (simp add: tidy_def)
      moreover have "length (take (m - 3) t @ ''...'') \<le> m" using gt by simp
      ultimately show ?thesis using c Count by (simp add: line_inv_def fits_def)
    qed
  next
    case Infinite
    then show ?thesis using False by (simp add: fits_def)
  next
    case NaN
    then have "collapseWithEllipsis t cpl = ''...''"
      by (simp add: collapseWithEllipsis_def at_most_three_def fits_def)
    then show ?thesis using dot NaN by (simp add: line_inv_def tidy_def)
  qed
qed

lemma charsPerLine_valid: "charsPerLine mw fs \<noteq> Count 0"
  by (simp add: charsPerLine_def Let_def)

subsection \<open>The result of \<^verbatim>\<open>wrapText\<close>\<close>

lemma take_update_last:
  "1 \<le> m \<Longrightarrow> m \<le> length ls \<Longrightarrow> (take m ls)[m - 1 := x] = take (m - 1) ls @ [x]"
proof -
  assume m: "1 \<le> m" "m \<le> length ls"
  then have "take m ls = take (m - 1) ls @ [ls ! (m - 1)]"
    using take_Suc_conv_app_nth [of "m - 1" ls] by simp
  moreover have "length (take (m - 1) ls) = m - 1" using m by simp
  ultimately show ?thesis by (simp add: list_update_append)
qed

lemma wrapText_packed:
  assumes tr: "trim (WrapOptions.text' opts) \<noteq> []" and w: "WrapOptions.wrap opts"
    and cpl: "cpl = charsPerLine (maxWidth opts) (WrapOptions.fontSize opts)"
    and nf: "\<not> fits (length (trim (WrapOptions.text' opts))) cpl"
    and m: "m = (case maxLines opts of None \<Rightarrow> 2 | Some k \<Rightarrow> k)"
  shows "\<exists>l0 cur. pack cpl (split_ws (trim (WrapOptions.text' opts))) [] [] = Some (l0, cur) \<and>
           (\<forall>l \<in> set (pushCurrent l0 cur). line_inv cpl l) \<and>
           wrapText opts =
             Some (if length (pushCurrent l0 cur) \<le> m then pushCurrent l0 cur
                   else if m = 0 then []
                   else take (m - 1) (pushCurrent l0 cur) @
                     [collapseWithEllipsis (join '' '' (drop (m - 1) (pushCurrent l0 cur))) cpl])"
proof -
  have v: "cpl \<noteq> Count 0" unfolding cpl by (rule charsPerLine_valid)
  have "tidy (trim (WrapOptions.text' opts))" using tr by (rule trim_tidy)
  then have words: "\<forall>w \<in> set (split_ws (trim (WrapOptions.text' opts))). w \<noteq> [] \<and> (\<forall>c \<in> set w. \<not> is_ws c)"
    by (rule split_ws_words)
  from pack_inv [OF v words, of "[]" "[]"]
  obtain l0 cur where p: "pack cpl (split_ws (trim (WrapOptions.text' opts))) [] [] = Some (l0, cur)"
    and i0: "\<forall>l \<in> set l0. line_inv cpl l" and ic: "cur = [] \<or> line_inv cpl cur"
    by auto
  define ls where "ls = pushCurrent l0 cur"
  have inv: "\<forall>l \<in> set ls. line_inv cpl l"
    unfolding ls_def using i0 ic by (rule pushCurrent_inv)
  have res: "wrapText opts =
      Some (if length ls \<le> m then ls
            else if m = 0 then []
            else take (m - 1) ls @ [collapseWithEllipsis (join '' '' (drop (m - 1) ls)) cpl])"
  proof (cases "length ls \<le> m")
    case True
    then show ?thesis
      using tr w nf p unfolding wrapText_def cpl m ls_def by (simp add: Let_def)
  next
    case False
    show ?thesis
    proof (cases "m = 0")
      case True
      then show ?thesis
        using False tr w nf p unfolding wrapText_def cpl m ls_def by (simp add: Let_def)
    next
      case m0: False
      have ne: "drop (m - 1) ls \<noteq> []" using False by simp
      have "\<forall>l \<in> set (drop (m - 1) ls). tidy l"
        using inv by (auto simp: line_inv_def dest: in_set_dropD)
      with ne have "tidy (join '' '' (drop (m - 1) ls))" by (rule join_tidy)
      then have t: "trim (join '' '' (drop (m - 1) ls)) = join '' '' (drop (m - 1) ls)"
        by (rule tidy_trim)
      have u: "(take m ls)[m - 1 := x] = take (m - 1) ls @ [x]" for x
        using m0 False by (intro take_update_last) auto
      show ?thesis
        using False m0 tr w nf p t u unfolding wrapText_def cpl m ls_def
        by (simp add: Let_def)
    qed
  qed
  show ?thesis using p inv res unfolding ls_def by blast
qed

lemma collapse_Count: "collapseWithEllipsis t (Count n) = collapse_spec t n"
  by (simp add: collapseWithEllipsis_def collapse_spec_def fits_def at_most_three_def)

lemma wrapText_simple:
  "trim (WrapOptions.text' opts) = [] \<Longrightarrow> wrapText opts = Some []"
  "trim (WrapOptions.text' opts) \<noteq> [] \<Longrightarrow> \<not> WrapOptions.wrap opts \<Longrightarrow> wrapText opts = Some [trim (WrapOptions.text' opts)]"
  "trim (WrapOptions.text' opts) \<noteq> [] \<Longrightarrow> WrapOptions.wrap opts \<Longrightarrow>
     fits (length (trim (WrapOptions.text' opts))) (charsPerLine (maxWidth opts) (WrapOptions.fontSize opts)) \<Longrightarrow>
     wrapText opts = Some [trim (WrapOptions.text' opts)]"
  by (simp_all add: wrapText_def Let_def)

subsection \<open>C4: the number of lines and the final line\<close>

text \<open>
  C4, as stated, fails twice. With the default limit of two lines and a budget of five
  characters, the text \<^verbatim>\<open>abcdefg hi\<close> packs into the lines \<^verbatim>\<open>abcde\<close>, \<^verbatim>\<open>fg\<close> and \<^verbatim>\<open>hi\<close>;
  the remainder \<^verbatim>\<open>fg hi\<close> is within the budget, and \<^verbatim>\<open>collapseWithEllipsis\<close> returns it
  as it is, with no truncation and no ellipsis (the statement would make the final
  line \<^verbatim>\<open>fg...\<close>). And with \<^verbatim>\<open>maxLines = 0\<close> and wrapping disabled, \<^verbatim>\<open>wrapText\<close>
  returns one line, which is more than \<^verbatim>\<open>maxLines\<close>.
\<close>

theorem wrapText_limit_counterexample:
  "wrapText \<lparr>WrapOptions.text' = ''abcdefg hi'', maxWidth = 36, WrapOptions.fontSize = 12, WrapOptions.wrap = True, maxLines = None\<rparr>
     = Some [''abcde'', ''fg hi''] \<and>
   charsPerLine 36 12 = Count 5 \<and>
   ''fg hi'' \<noteq> take (5 - 3) ''fg hi'' @ ''...'' \<and>
   wrapText \<lparr>WrapOptions.text' = ''a'', maxWidth = 36, WrapOptions.fontSize = 12, WrapOptions.wrap = False, maxLines = Some 0\<rparr>
     = Some [''a'']"
  by code_simp

text \<open>
  C4, amended: for every call with \<^verbatim>\<open>maxLines\<close> at least 1 (2 when it is not given),
  \<^verbatim>\<open>wrapText\<close> returns, and returns at most \<^verbatim>\<open>maxLines\<close> lines. When wrapping is enabled,
  the budget is the number \<open>n\<close>, the trimmed text is longer than the budget and the
  greedy packing yields more than \<^verbatim>\<open>maxLines\<close> lines, the result is the first
  \<^verbatim>\<open>maxLines - 1\<close> packed lines, verbatim, followed by one final line: the packed lines
  from index \<^verbatim>\<open>maxLines - 1\<close> on, joined with single spaces, and kept as they are when
  that is within the budget, otherwise cut to \<open>n - 3\<close> characters plus a
  three-character ellipsis (or, with a budget of at most 3, replaced by \<open>n\<close> dots).
\<close>

theorem wrapText_line_limit:
  assumes m: "m = (case maxLines opts of None \<Rightarrow> 2 | Some k \<Rightarrow> k)" and m1: "1 \<le> m"
  shows "(\<exists>ls. wrapText opts = Some ls \<and> length ls \<le> m) \<and>
     (\<forall>n l0 cur.
        WrapOptions.wrap opts \<and> charsPerLine (maxWidth opts) (WrapOptions.fontSize opts) = Count n \<and>
        n < length (trim (WrapOptions.text' opts)) \<and>
        pack (Count n) (split_ws (trim (WrapOptions.text' opts))) [] [] = Some (l0, cur) \<and>
        m < length (pushCurrent l0 cur) \<longrightarrow>
        wrapText opts =
          Some (take (m - 1) (pushCurrent l0 cur) @
                [collapse_spec (join '' '' (drop (m - 1) (pushCurrent l0 cur))) n]))"
proof -
  define cpl where "cpl = charsPerLine (maxWidth opts) (WrapOptions.fontSize opts)"
  have a: "\<exists>ls. wrapText opts = Some ls \<and> length ls \<le> m"
  proof (cases "trim (WrapOptions.text' opts) \<noteq> [] \<and> WrapOptions.wrap opts \<and> \<not> fits (length (trim (WrapOptions.text' opts))) cpl")
    case True
    from wrapText_packed [OF _ _ cpl_def _ m] True
    obtain ls where r: "wrapText opts =
             Some (if length ls \<le> m then ls
                   else if m = 0 then []
                   else take (m - 1) ls @ [collapseWithEllipsis (join '' '' (drop (m - 1) ls)) cpl])"
      by blast
    show ?thesis
    proof (cases "length ls \<le> m")
      case True
      then show ?thesis using r by simp
    next
      case False
      then have "length (take (m - 1) ls @ [collapseWithEllipsis (join '' '' (drop (m - 1) ls)) cpl]) \<le> m"
        using m1 by simp
      then show ?thesis using r False m1 by simp
    qed
  next
    case False
    then consider "trim (WrapOptions.text' opts) = []" | "trim (WrapOptions.text' opts) \<noteq> []" "\<not> WrapOptions.wrap opts"
      | "trim (WrapOptions.text' opts) \<noteq> []" "WrapOptions.wrap opts"
        "fits (length (trim (WrapOptions.text' opts))) (charsPerLine (maxWidth opts) (WrapOptions.fontSize opts))"
      unfolding cpl_def by blast
    then show ?thesis
    proof cases
      case 1
      then show ?thesis by (simp add: wrapText_simple(1))
    next
      case 2
      then show ?thesis using m1 by (simp add: wrapText_simple(2))
    next
      case 3
      then show ?thesis using m1 by (simp add: wrapText_simple(3))
    qed
  qed
  have b: "wrapText opts =
          Some (take (m - 1) (pushCurrent l0 cur) @
                [collapse_spec (join '' '' (drop (m - 1) (pushCurrent l0 cur))) n])"
    if w: "WrapOptions.wrap opts" and c: "charsPerLine (maxWidth opts) (WrapOptions.fontSize opts) = Count n"
      and n: "n < length (trim (WrapOptions.text' opts))"
      and p: "pack (Count n) (split_ws (trim (WrapOptions.text' opts))) [] [] = Some (l0, cur)"
      and l: "m < length (pushCurrent l0 cur)" for n l0 cur
  proof -
    have tr: "trim (WrapOptions.text' opts) \<noteq> []" using n by auto
    have nf: "\<not> fits (length (trim (WrapOptions.text' opts))) cpl" using n c by (simp add: fits_def cpl_def)
    from wrapText_packed [OF tr w cpl_def nf m] p l m1 c
    show ?thesis by (auto simp: cpl_def collapse_Count)
  qed
  show ?thesis using a b by blast
qed

lemma quick_fox_budget: "charsPerLine 72 12 = Count 10" by code_simp
lemma quick_fox_trim: "trim '' the quick  brown fox jumps over'' = ''the quick  brown fox jumps over''" by code_simp
lemma quick_fox_pack: "pack (Count 10) (split_ws ''the quick  brown fox jumps over'') [] [] = Some ([''the quick'', ''brown fox''], ''jumps over'')"
  by code_simp

theorem wrapText_line_limit_witness:
  "wrapText \<lparr>WrapOptions.text' = '' the quick  brown fox jumps over'', maxWidth = 72, WrapOptions.fontSize = 12,
      WrapOptions.wrap = True, maxLines = None\<rparr> = Some [''the quick'', ''brown f...'']"
proof -
  let ?o = "\<lparr>WrapOptions.text' = '' the quick  brown fox jumps over'', maxWidth = 72, WrapOptions.fontSize = 12,
      WrapOptions.wrap = True, maxLines = None\<rparr>"
  have m: "(2::nat) = (case maxLines ?o of None \<Rightarrow> 2 | Some k \<Rightarrow> k)" "1 \<le> (2::nat)" by simp_all
  have h: "WrapOptions.wrap ?o \<and> charsPerLine (maxWidth ?o) (WrapOptions.fontSize ?o) = Count 10 \<and>
        10 < length (trim (WrapOptions.text' ?o)) \<and>
        pack (Count 10) (split_ws (trim (WrapOptions.text' ?o))) [] [] =
          Some ([''the quick'', ''brown fox''], ''jumps over'') \<and>
        2 < length (pushCurrent [''the quick'', ''brown fox''] ''jumps over'')"
    using quick_fox_budget quick_fox_trim quick_fox_pack by (simp add: pushCurrent_def)
  have "wrapText ?o =
          Some (take (2 - 1) (pushCurrent [''the quick'', ''brown fox''] ''jumps over'') @
                [collapse_spec (join '' '' (drop (2 - 1)
                   (pushCurrent [''the quick'', ''brown fox''] ''jumps over''))) 10])"
    using wrapText_line_limit [OF m] h by blast
  then show ?thesis by (simp add: pushCurrent_def collapse_spec_def)
qed

subsection \<open>C8: wrapping a returned line again\<close>

lemma rewrap_line:
  assumes inv: "line_inv cpl L" and cpl: "cpl = charsPerLine (maxWidth opts) (WrapOptions.fontSize opts)"
    and m: "1 \<le> (case maxLines opts of None \<Rightarrow> 2 | Some k \<Rightarrow> k)"
  shows "wrapText (opts\<lparr>WrapOptions.text' := L\<rparr>) = Some [L]"
proof -
  have t: "trim L = L" "L \<noteq> []" using inv by (auto simp: line_inv_def tidy_trim tidy_def)
  show ?thesis
  proof (cases "WrapOptions.wrap opts \<and> \<not> fits (length L) cpl")
    case False
    then show ?thesis using t cpl by (auto simp: wrapText_def Let_def)
  next
    case True
    then have n: "cpl = NaN" and ws: "\<forall>c \<in> set L. \<not> is_ws c" using inv by (auto simp: line_inv_def)
    have s: "split_ws L = [L]" using ws by (rule split_ws_single)
    have p: "pack NaN [L] [] [] = Some ([], L)"
      by (simp add: exceeds_def fits_def pushCurrent_def)
    show ?thesis
      using True t s p m n cpl [symmetric]
      by (simp add: wrapText_def Let_def pushCurrent_def)
  qed
qed

text \<open>
  C8: \<^verbatim>\<open>wrapText\<close> returns, and every line \<open>L\<close> it returns is a fixed point: wrapping
  \<open>L\<close> with the same width, font size, wrap flag and line limit returns the one line
  \<open>L\<close>. When wrapping is enabled (and the font size is not zero, so that the budget is
  a number), every returned line is within the budget of
  \<^verbatim>\<open>max(1, floor(maxWidth / (fontSize * 0.6)))\<close> characters.
\<close>

theorem wrapText_rewrap:
  "\<exists>ls. wrapText opts = Some ls \<and>
     (\<forall>L \<in> set ls.
        wrapText (opts\<lparr>WrapOptions.text' := L\<rparr>) = Some [L] \<and>
        (WrapOptions.wrap opts \<and> WrapOptions.fontSize opts \<noteq> 0 \<longrightarrow>
           int (length L) \<le> max 1 \<lfloor>maxWidth opts / (WrapOptions.fontSize opts * 0.6)\<rfloor>))"
proof -
  define cpl where "cpl = charsPerLine (maxWidth opts) (WrapOptions.fontSize opts)"
  define m where "m = (case maxLines opts of None \<Rightarrow> 2 | Some k \<Rightarrow> k)"
  define t where "t = trim (WrapOptions.text' opts)"
  have bound: "int (length L) \<le> max 1 \<lfloor>maxWidth opts / (WrapOptions.fontSize opts * 0.6)\<rfloor>"
    if "fits (length L) cpl" "WrapOptions.fontSize opts \<noteq> 0" for L :: string
    using that by (auto simp: cpl_def charsPerLine_def fits_def Let_def)
  have tt: "trim t = t" unfolding t_def by (rule trim_idem)
  consider (empty) "t = []" | (plain) "t \<noteq> []" "\<not> WrapOptions.wrap opts"
    | (short) "t \<noteq> []" "WrapOptions.wrap opts" "fits (length t) cpl"
    | (packed) "t \<noteq> []" "WrapOptions.wrap opts" "\<not> fits (length t) cpl"
    by blast
  then show ?thesis
  proof cases
    case empty
    then show ?thesis using wrapText_simple(1) [of opts] by (simp add: t_def)
  next
    case plain
    then have "wrapText opts = Some [t]" using wrapText_simple(2) [of opts] by (simp add: t_def)
    moreover have "wrapText (opts\<lparr>WrapOptions.text' := t\<rparr>) = Some [t]"
      using plain tt wrapText_simple(2) [of "opts\<lparr>WrapOptions.text' := t\<rparr>"] by simp
    ultimately show ?thesis using plain by simp
  next
    case short
    then have "wrapText opts = Some [t]"
      using wrapText_simple(3) [of opts] by (simp add: t_def cpl_def)
    moreover have "wrapText (opts\<lparr>WrapOptions.text' := t\<rparr>) = Some [t]"
      using short tt wrapText_simple(3) [of "opts\<lparr>WrapOptions.text' := t\<rparr>"] by (simp add: cpl_def)
    ultimately show ?thesis using bound [OF short(3)] by simp
  next
    case packed
    from wrapText_packed [OF _ _ cpl_def _ m_def] packed
    obtain l0 cur where inv: "\<forall>l \<in> set (pushCurrent l0 cur). line_inv cpl l"
      and res: "wrapText opts =
             Some (if length (pushCurrent l0 cur) \<le> m then pushCurrent l0 cur
                   else if m = 0 then []
                   else take (m - 1) (pushCurrent l0 cur) @
                     [collapseWithEllipsis (join '' '' (drop (m - 1) (pushCurrent l0 cur))) cpl])"
      unfolding t_def by blast
    define ls where "ls = pushCurrent l0 cur"
    define out where "out = (if length ls \<le> m then ls
                   else if m = 0 then []
                   else take (m - 1) ls @ [collapseWithEllipsis (join '' '' (drop (m - 1) ls)) cpl])"
    have v: "cpl \<noteq> Count 0" unfolding cpl_def by (rule charsPerLine_valid)
    have oi: "\<forall>L \<in> set out. line_inv cpl L"
    proof (cases "length ls \<le> m \<or> m = 0")
      case True
      then show ?thesis using inv by (auto simp: out_def ls_def)
    next
      case False
      then have ne: "drop (m - 1) ls \<noteq> []" by (cases m) auto
      have "\<forall>l \<in> set (drop (m - 1) ls). tidy l"
        using inv by (auto simp: ls_def line_inv_def dest: in_set_dropD)
      with ne have "tidy (join '' '' (drop (m - 1) ls))" by (rule join_tidy)
      with v have "line_inv cpl (collapseWithEllipsis (join '' '' (drop (m - 1) ls)) cpl)"
        by (rule collapse_inv)
      then show ?thesis using False inv by (auto simp: out_def ls_def dest: in_set_takeD)
    qed
    have m1: "1 \<le> m" if "out \<noteq> []"
      using that by (cases m) (auto simp: out_def)
    have "wrapText (opts\<lparr>WrapOptions.text' := L\<rparr>) = Some [L] \<and>
        (WrapOptions.wrap opts \<and> WrapOptions.fontSize opts \<noteq> 0 \<longrightarrow>
           int (length L) \<le> max 1 \<lfloor>maxWidth opts / (WrapOptions.fontSize opts * 0.6)\<rfloor>)"
      if L: "L \<in> set out" for L
    proof -
      have li: "line_inv cpl L" using oi L by simp
      have "out \<noteq> []" using L by auto
      then have "1 \<le> m" by (rule m1)
      then have r: "wrapText (opts\<lparr>WrapOptions.text' := L\<rparr>) = Some [L]"
        using rewrap_line [OF li cpl_def] by (simp add: m_def)
      have "fits (length L) cpl" if "WrapOptions.fontSize opts \<noteq> 0"
        using li that by (auto simp: line_inv_def cpl_def charsPerLine_def Let_def)
      then show ?thesis using r bound by blast
    qed
    moreover have "wrapText opts = Some out" using res by (simp add: out_def ls_def)
    ultimately show ?thesis by blast
  qed
qed

theorem wrapText_rewrap_witness:
  "wrapText \<lparr>WrapOptions.text' = ''brown f...'', maxWidth = 72, WrapOptions.fontSize = 12, WrapOptions.wrap = True, maxLines = None\<rparr>
     = Some [''brown f...''] \<and>
   int (length ''brown f...'') \<le> max 1 \<lfloor>(72::real) / (12 * 0.6)\<rfloor>"
proof -
  let ?o = "\<lparr>WrapOptions.text' = '' the quick  brown fox jumps over'', maxWidth = 72, WrapOptions.fontSize = 12,
      WrapOptions.wrap = True, maxLines = None\<rparr>"
  have r: "wrapText ?o = Some [''the quick'', ''brown f...'']" by code_simp
  from wrapText_rewrap [of ?o] r
  have "wrapText (?o\<lparr>WrapOptions.text' := ''brown f...''\<rparr>) = Some [''brown f...''] \<and>
        (WrapOptions.wrap ?o \<and> WrapOptions.fontSize ?o \<noteq> 0 \<longrightarrow>
           int (length ''brown f...'') \<le> max 1 \<lfloor>maxWidth ?o / (WrapOptions.fontSize ?o * 0.6)\<rfloor>)"
    by simp
  then show ?thesis by simp
qed

subsection \<open>The matchers of the colour forms\<close>

lemma match_hex_iff:
  "match_hex s = Some v \<longleftrightarrow>
     s = CHR ''#'' # v \<and> (length v = 3 \<or> length v = 6) \<and> list_all is_hex v"
  by (cases s) (auto simp: match_hex_def)

lemma match_hex_None: "match_hex s = None \<longleftrightarrow> \<not> hex_form s"
proof -
  have "hex_form s \<longleftrightarrow> (\<exists>v. match_hex s = Some v)"
    by (auto simp: hex_form_def match_hex_iff)
  then show ?thesis by (cases "match_hex s") auto
qed

lemma match_func_Some:
  assumes "n = name @ a @ ''('' @ body @ '')''" "a = [] \<or> a = ''a''" "body \<noteq> []"
    "CHR '')'' \<notin> set body"
  shows "match_func name n = Some (group_of body)"
proof (cases "a = []")
  case True
  then show ?thesis
    unfolding match_func_def Let_def assms(1) using assms(3,4)
    by (simp add: startsWith_def group_of_def butlast_append)
next
  case False
  then have "a = ''a''" using assms(2) by simp
  then show ?thesis
    unfolding match_func_def Let_def assms(1) using assms(3,4)
    by (simp add: startsWith_def group_of_def butlast_append)
qed

lemma match_func_form:
  assumes "match_func name n = Some g"
  shows "\<exists>a body. n = name @ a @ ''('' @ body @ '')'' \<and> (a = [] \<or> a = ''a'') \<and> body \<noteq> [] \<and>
           CHR '')'' \<notin> set body \<and> g = group_of body"
proof -
  define r0 where "r0 = drop (length name) n"
  define r1 where "r1 = (if take 1 r0 = ''a'' then drop 1 r0 else r0)"
  define a where "a = (if take 1 r0 = ''a'' then ''a'' else [])"
  have sw: "startsWith n name" using assms by (auto simp: match_func_def split: if_splits)
  then have n: "n = name @ r0"
    unfolding startsWith_def r0_def by (metis append_take_drop_id)
  have r0: "r0 = a @ r1" unfolding a_def r1_def
    by (cases r0) auto
  from assms sw obtain inner where r1: "r1 = CHR ''('' # inner" and i: "inner \<noteq> []"
    "last inner = CHR '')''" and b: "butlast inner \<noteq> []" "CHR '')'' \<notin> set (butlast inner)"
    and g: "g = group_of (butlast inner)"
    unfolding match_func_def Let_def r0_def [symmetric] r1_def [symmetric]
    by (cases r1) (auto simp: group_of_def split: if_splits)
  have "inner = butlast inner @ '')''" using i by (metis append_butlast_last_id)
  then have "n = name @ a @ ''('' @ butlast inner @ '')''" using n r0 r1 by simp
  moreover have "a = [] \<or> a = ''a''" by (simp add: a_def)
  ultimately show ?thesis using b g by blast
qed

lemma match_func_None: "match_func name n = None \<longleftrightarrow> \<not> func_form name n"
proof
  assume "match_func name n = None"
  then show "\<not> func_form name n"
    unfolding func_form_def using match_func_Some [of n name] by fastforce
next
  assume "\<not> func_form name n"
  then show "match_func name n = None"
    unfolding func_form_def using match_func_form [of name n]
    by (cases "match_func name n") blast+
qed

subsection \<open>The components of the functional notation\<close>

lemma split_on_ne: "split_on c s \<noteq> []"
  by (induction s) (auto split: list.splits)

lemma split_on_Cons:
  "split_on c (x # xs) =
     (if x = c then [] # split_on c xs else (x # hd (split_on c xs)) # tl (split_on c xs))"
  using split_on_ne [of c xs] by (cases "split_on c xs") auto

lemma split_on_prefix:
  "c \<notin> set w \<Longrightarrow> split_on c (w @ s) = (w @ hd (split_on c s)) # tl (split_on c s)"
proof (induction w)
  case Nil
  then show ?case using split_on_ne [of c s] by simp
next
  case (Cons x w)
  then have ih: "split_on c (w @ s) = (w @ hd (split_on c s)) # tl (split_on c s)"
    and x: "x \<noteq> c" by auto
  have "split_on c ((x # w) @ s) = (x # hd (split_on c (w @ s))) # tl (split_on c (w @ s))"
    using x by (simp only: append_Cons split_on_Cons if_False)
  then show ?case by (simp only: ih list.sel append_Cons)
qed

lemma split_on_absent: "c \<notin> set s \<Longrightarrow> split_on c s = [s]"
  using split_on_prefix [of c s "[]"] by simp

lemma trim_ws_prefix: "list_all is_ws w \<Longrightarrow> trim (w @ s) = trim s"
  by (simp add: trim_def dropWhile_all_append)

lemma trim_all_ws: "list_all is_ws w \<Longrightarrow> trim w = []"
  using trim_ws_prefix [of w "[]"] by (simp add: trim_def)

lemma comma_not_ws: "\<not> is_ws CHR '',''"
  by (simp add: is_ws_def)

lemma components_group:
  assumes "body \<noteq> []"
  shows "map trim (split_on CHR '','' (group_of body)) = map trim (split_on CHR '','' body)"
proof (cases "dropWhile is_ws body = []")
  case True
  then have ws: "list_all is_ws body" by (simp add: list_all_iff)
  then have nc: "CHR '','' \<notin> set body" using comma_not_ws by (auto simp: list_all_iff)
  have l: "is_ws (last body)" using ws assms by (simp add: list_all_iff)
  then have "CHR '','' \<notin> set [last body]" using comma_not_ws by auto
  then have "split_on CHR '','' [last body] = [[last body]]" by (rule split_on_absent)
  moreover have "trim [last body] = []" using l by (intro trim_all_ws) simp
  moreover have "trim body = []" using ws by (rule trim_all_ws)
  ultimately show ?thesis using True nc by (simp add: group_of_def split_on_absent)
next
  case False
  define w where "w = takeWhile is_ws body"
  define g where "g = dropWhile is_ws body"
  have b: "body = w @ g" by (simp add: w_def g_def)
  have ws: "list_all is_ws w" unfolding w_def list_all_iff by (auto dest: set_takeWhileD)
  then have nc: "CHR '','' \<notin> set w" using comma_not_ws by (auto simp: list_all_iff)
  have "split_on CHR '','' body = (w @ hd (split_on CHR '','' g)) # tl (split_on CHR '','' g)"
    unfolding b using nc by (rule split_on_prefix)
  then have "map trim (split_on CHR '','' body) =
      trim (hd (split_on CHR '','' g)) # map trim (tl (split_on CHR '','' g))"
    using ws by (simp add: trim_ws_prefix)
  also have "\<dots> = map trim (split_on CHR '','' g)"
    using split_on_ne [of "CHR '',''" g] by (cases "split_on CHR '','' g") auto
  finally have "map trim (split_on CHR '','' body) = map trim (split_on CHR '','' g)" .
  moreover have "group_of body = g" using False by (simp only: group_of_def g_def if_False)
  ultimately show ?thesis by simp
qed

lemma startsWith_a:
  "(a = [] \<or> a = ''a'') \<Longrightarrow> length name = 3 \<Longrightarrow>
     startsWith (name @ a @ ''('' @ body @ '')'') (name @ ''a'') \<longleftrightarrow> a = ''a''"
  by (auto simp: startsWith_def)

lemma parseColor_func:
  assumes n: "toLowerCase (trim input) = name @ a @ ''('' @ body @ '')''"
    and a: "a = [] \<or> a = ''a''" and b: "body \<noteq> []" "CHR '')'' \<notin> set body"
    and T: "T (toLowerCase (trim input)) = None"
    and name: "name = ''rgb'' \<or> name = ''hsl''"
  shows "parseColor T input =
           Inr (name @ a @ ''('' @ join '', '' (map trim (split_on CHR '','' body)) @ '')'')"
proof -
  let ?n = "toLowerCase (trim input)"
  have ne: "?n \<noteq> []" "?n \<noteq> ''t''" "?n \<noteq> ''transparent''"
    using n name a by auto
  have hx: "match_hex ?n = None" using n name by (auto simp: match_hex_def)
  have mf: "match_func name ?n = Some (group_of body)"
    using n a b by (intro match_func_Some) auto
  have sw: "startsWith ?n (name @ ''a'') \<longleftrightarrow> a = ''a''"
    unfolding n using a name by (intro startsWith_a) auto
  show ?thesis
  proof (cases "name = ''rgb''")
    case True
    show ?thesis
      using ne hx T mf [unfolded True] sw [unfolded True] a components_group [OF b(1)]
      unfolding parseColor_def Let_def True by auto
  next
    case False
    then have h: "name = ''hsl''" using name by simp
    have "match_func ''rgb'' ?n = None"
      unfolding n h by (simp add: match_func_def startsWith_def)
    then show ?thesis
      using ne hx T mf [unfolded h] sw [unfolded h] a components_group [OF b(1)]
      unfolding parseColor_def Let_def h by auto
  qed
qed

lemma parseColor_fails_iff:
  "(\<exists>e. parseColor T input = Inl e) \<longleftrightarrow>
     toLowerCase (trim input) = [] \<or>
     (toLowerCase (trim input) \<noteq> ''t'' \<and> toLowerCase (trim input) \<noteq> ''transparent'' \<and>
      T (toLowerCase (trim input)) = None \<and> match_hex (toLowerCase (trim input)) = None \<and>
      match_func ''rgb'' (toLowerCase (trim input)) = None \<and>
      match_func ''hsl'' (toLowerCase (trim input)) = None)"
  unfolding parseColor_def Let_def by (auto split: option.splits)

lemma parseColor_error: "parseColor T input = Inl e \<Longrightarrow> e = InvalidColor"
  unfolding parseColor_def Let_def by (auto split: option.splits if_splits)

subsection \<open>C2: the resolution order of \<^verbatim>\<open>parseColor\<close>\<close>

text \<open>
  C2: with \<open>n\<close> the trimmed, lower-cased input, \<^verbatim>\<open>parseColor\<close> resolves in this order.
  The literals \<^verbatim>\<open>t\<close> and \<^verbatim>\<open>transparent\<close> give the transparent sentinel, whatever the table
  holds. Otherwise a name of the table gives its value. Otherwise the number sign with
  three hexadecimal digits gives the six-digit form with every digit doubled, and with
  six digits it gives \<open>n\<close> itself. Otherwise \<^verbatim>\<open>rgb(...)\<close> or \<^verbatim>\<open>rgba(...)\<close>, and then
  \<^verbatim>\<open>hsl(...)\<close> or \<^verbatim>\<open>hsla(...)\<close>, with a body that is not empty and has no closing
  parenthesis, is passed through with the components (the pieces between commas,
  each trimmed) joined again by a comma and a space. \<^verbatim>\<open>parseColor\<close> fails exactly when
  \<open>n\<close> is empty or none of these forms, and the only error is \<^verbatim>\<open>Invalid color\<close>.
\<close>

theorem parseColor_resolution:
  assumes n: "n = toLowerCase (trim input)"
  shows
   "(n = ''t'' \<or> n = ''transparent'' \<longrightarrow> parseColor T input = Inr ''transparent'') \<and>
    (n \<noteq> [] \<and> n \<noteq> ''t'' \<and> n \<noteq> ''transparent'' \<longrightarrow>
       (\<forall>v. T n = Some v \<longrightarrow> parseColor T input = Inr v)) \<and>
    (T n = None \<longrightarrow>
       (\<forall>h. n = CHR ''#'' # h \<and> length h = 3 \<and> list_all is_hex h \<longrightarrow>
            parseColor T input = Inr (CHR ''#'' # concat (map (\<lambda>c. [c, c]) h))) \<and>
       (\<forall>h. n = CHR ''#'' # h \<and> length h = 6 \<and> list_all is_hex h \<longrightarrow>
            parseColor T input = Inr n) \<and>
       (\<forall>a body. n = ''rgb'' @ a @ ''('' @ body @ '')'' \<and> (a = [] \<or> a = ''a'') \<and>
            body \<noteq> [] \<and> CHR '')'' \<notin> set body \<longrightarrow>
            parseColor T input =
              Inr (''rgb'' @ a @ ''('' @ join '', '' (map trim (split_on CHR '','' body)) @ '')'')) \<and>
       (\<forall>a body. n = ''hsl'' @ a @ ''('' @ body @ '')'' \<and> (a = [] \<or> a = ''a'') \<and>
            body \<noteq> [] \<and> CHR '')'' \<notin> set body \<longrightarrow>
            parseColor T input =
              Inr (''hsl'' @ a @ ''('' @ join '', '' (map trim (split_on CHR '','' body)) @ '')''))) \<and>
    ((\<exists>e. parseColor T input = Inl e) \<longleftrightarrow>
       n = [] \<or> (n \<noteq> ''t'' \<and> n \<noteq> ''transparent'' \<and> T n = None \<and> \<not> hex_form n \<and>
                 \<not> func_form ''rgb'' n \<and> \<not> func_form ''hsl'' n)) \<and>
    (\<forall>e. parseColor T input = Inl e \<longrightarrow> e = InvalidColor)"
proof -
  have c1: "parseColor T input = Inr ''transparent''" if "n = ''t'' \<or> n = ''transparent''"
    using that unfolding parseColor_def Let_def n [symmetric] by auto
  have c2: "parseColor T input = Inr v"
    if "n \<noteq> []" "n \<noteq> ''t''" "n \<noteq> ''transparent''" "T n = Some v" for v
    using that unfolding parseColor_def Let_def n [symmetric] by simp
  have c3: "parseColor T input = Inr (CHR ''#'' # concat (map (\<lambda>c. [c, c]) h))"
    if "T n = None" "n = CHR ''#'' # h" "length h = 3" "list_all is_hex h" for h
  proof -
    have "match_hex n = Some h" using that by (simp add: match_hex_iff)
    then show ?thesis
      using that unfolding parseColor_def Let_def n [symmetric] by simp
  qed
  have c4: "parseColor T input = Inr n"
    if "T n = None" "n = CHR ''#'' # h" "length h = 6" "list_all is_hex h" for h
  proof -
    have "match_hex n = Some h" using that by (simp add: match_hex_iff)
    then show ?thesis
      using that unfolding parseColor_def Let_def n [symmetric] by simp
  qed
  have c5: "parseColor T input =
      Inr (name @ a @ ''('' @ join '', '' (map trim (split_on CHR '','' body)) @ '')'')"
    if "T n = None" "n = name @ a @ ''('' @ body @ '')''" "a = [] \<or> a = ''a''" "body \<noteq> []"
      "CHR '')'' \<notin> set body" "name = ''rgb'' \<or> name = ''hsl''" for name a body
    using that parseColor_func [of input name a body T] unfolding n by blast
  have c6: "(\<exists>e. parseColor T input = Inl e) \<longleftrightarrow>
       n = [] \<or> (n \<noteq> ''t'' \<and> n \<noteq> ''transparent'' \<and> T n = None \<and> \<not> hex_form n \<and>
                 \<not> func_form ''rgb'' n \<and> \<not> func_form ''hsl'' n)"
    unfolding n parseColor_fails_iff match_hex_None match_func_None by (rule refl)
  have c7: "\<forall>e. parseColor T input = Inl e \<longrightarrow> e = InvalidColor"
    using parseColor_error by blast
  have c5r: "\<forall>a body. n = ''rgb'' @ a @ ''('' @ body @ '')'' \<and> (a = [] \<or> a = ''a'') \<and>
            body \<noteq> [] \<and> CHR '')'' \<notin> set body \<longrightarrow>
            parseColor T input =
              Inr (''rgb'' @ a @ ''('' @ join '', '' (map trim (split_on CHR '','' body)) @ '')'')"
    if "T n = None" using c5 [OF that, of "''rgb''"] by blast
  have c5h: "\<forall>a body. n = ''hsl'' @ a @ ''('' @ body @ '')'' \<and> (a = [] \<or> a = ''a'') \<and>
            body \<noteq> [] \<and> CHR '')'' \<notin> set body \<longrightarrow>
            parseColor T input =
              Inr (''hsl'' @ a @ ''('' @ join '', '' (map trim (split_on CHR '','' body)) @ '')'')"
    if "T n = None" using c5 [OF that, of "''hsl''"] by blast
  show ?thesis
    apply (intro conjI impI allI)
    subgoal using c1 by blast
    subgoal using c2 by blast
    subgoal using c3 by blast
    subgoal using c4 by blast
    subgoal using c5r by blast
    subgoal using c5h by blast
    subgoal using c6 by blast
    subgoal using c7 by blast
    done
qed

theorem parseColor_resolution_witness:
  "parseColor test_colors ''#0f0'' = Inr ''#00ff00'' \<and>
   parseColor test_colors ''red'' = Inr ''#ff0000'' \<and>
   parseColor test_colors ''t'' = Inr ''transparent'' \<and>
   parseColor test_colors '' #A0B1C2 '' = Inr ''#a0b1c2'' \<and>
   parseColor test_colors ''RGB( 1,2 ,3)'' = Inr ''rgb(1, 2, 3)'' \<and>
   parseColor test_colors ''hsla(120 , 50%,50%,1)'' = Inr ''hsla(120, 50%, 50%, 1)'' \<and>
   parseColor test_colors ''#zzz'' = Inl InvalidColor \<and>
   parseColor test_colors '' '' = Inl InvalidColor"
proof -
  note r = parseColor_resolution [where T = test_colors]
  note transparent = r [THEN conjunct1, THEN mp]
  note named = r [THEN conjunct2, THEN conjunct1, THEN mp, THEN spec, THEN mp]
  note unnamed = r [THEN conjunct2, THEN conjunct2, THEN conjunct1, THEN mp]
  note hex3 = unnamed [THEN conjunct1, THEN spec, THEN mp]
  note hex6 = unnamed [THEN conjunct2, THEN conjunct1, THEN spec, THEN mp]
  note rgb = unnamed [THEN conjunct2, THEN conjunct2, THEN conjunct1, THEN spec, THEN spec, THEN mp]
  note hsl = unnamed [THEN conjunct2, THEN conjunct2, THEN conjunct2, THEN spec, THEN spec, THEN mp]
  note fails = r [THEN conjunct2, THEN conjunct2, THEN conjunct2, THEN conjunct1, THEN iffD2]
  note invalid = r [THEN conjunct2, THEN conjunct2, THEN conjunct2, THEN conjunct2, THEN spec, THEN mp]
  have n1: "''#0f0'' = toLowerCase (trim ''#0f0'')" by code_simp
  have n2: "''red'' = toLowerCase (trim ''red'')" by code_simp
  have n3: "''t'' = toLowerCase (trim ''t'')" by code_simp
  have n4: "''#a0b1c2'' = toLowerCase (trim '' #A0B1C2 '')" by code_simp
  have n5: "''rgb( 1,2 ,3)'' = toLowerCase (trim ''RGB( 1,2 ,3)'')" by code_simp
  have n6: "''hsla(120 , 50%,50%,1)'' = toLowerCase (trim ''hsla(120 , 50%,50%,1)'')" by code_simp
  have n7: "''#zzz'' = toLowerCase (trim ''#zzz'')" by code_simp
  have n8: "[] = toLowerCase (trim '' '')" by code_simp
  have t: "test_colors ''#0f0'' = None" "test_colors ''red'' = Some ''#ff0000''"
    "test_colors ''#a0b1c2'' = None" "test_colors ''rgb( 1,2 ,3)'' = None"
    "test_colors ''hsla(120 , 50%,50%,1)'' = None" "test_colors ''#zzz'' = None"
    by (simp_all add: test_colors_def)
  have "''#0f0'' = CHR ''#'' # ''0f0'' \<and> length ''0f0'' = 3 \<and> list_all is_hex ''0f0''"
    by (simp add: is_hex_def)
  from hex3 [OF n1 t(1) this]
  have 1: "parseColor test_colors ''#0f0'' = Inr ''#00ff00''" by simp
  have "''red'' \<noteq> [] \<and> ''red'' \<noteq> ''t'' \<and> ''red'' \<noteq> ''transparent''" by simp
  from named [OF n2 this t(2)]
  have 2: "parseColor test_colors ''red'' = Inr ''#ff0000''" .
  have "''t'' = ''t'' \<or> ''t'' = ''transparent''" by simp
  from transparent [OF n3 this]
  have 3: "parseColor test_colors ''t'' = Inr ''transparent''" .
  have "''#a0b1c2'' = CHR ''#'' # ''a0b1c2'' \<and> length ''a0b1c2'' = 6 \<and> list_all is_hex ''a0b1c2''"
    by (simp add: is_hex_def)
  from hex6 [OF n4 t(3) this]
  have 4: "parseColor test_colors '' #A0B1C2 '' = Inr ''#a0b1c2''" .
  have "''rgb( 1,2 ,3)'' = ''rgb'' @ [] @ ''('' @ '' 1,2 ,3'' @ '')'' \<and> ([] = [] \<or> [] = ''a'') \<and>
      '' 1,2 ,3'' \<noteq> [] \<and> CHR '')'' \<notin> set '' 1,2 ,3''" by simp
  from rgb [OF n5 t(4) this]
  have 5: "parseColor test_colors ''RGB( 1,2 ,3)'' = Inr ''rgb(1, 2, 3)''"
    by (simp add: trim_def is_ws_def)
  have "''hsla(120 , 50%,50%,1)'' = ''hsl'' @ ''a'' @ ''('' @ ''120 , 50%,50%,1'' @ '')'' \<and>
      (''a'' = [] \<or> ''a'' = ''a'') \<and> ''120 , 50%,50%,1'' \<noteq> [] \<and>
      CHR '')'' \<notin> set ''120 , 50%,50%,1''" by simp
  from hsl [OF n6 t(5) this]
  have 6: "parseColor test_colors ''hsla(120 , 50%,50%,1)'' = Inr ''hsla(120, 50%, 50%, 1)''"
    by (simp add: trim_def is_ws_def)
  have "match_hex ''#zzz'' = None" "match_func ''rgb'' ''#zzz'' = None"
    "match_func ''hsl'' ''#zzz'' = None"
    by (simp_all add: match_hex_def match_func_def startsWith_def is_hex_def)
  then have "\<not> hex_form ''#zzz''" "\<not> func_form ''rgb'' ''#zzz''" "\<not> func_form ''hsl'' ''#zzz''"
    by (simp_all add: match_hex_None match_func_None)
  then have "''#zzz'' = [] \<or> (''#zzz'' \<noteq> ''t'' \<and> ''#zzz'' \<noteq> ''transparent'' \<and>
      test_colors ''#zzz'' = None \<and> \<not> hex_form ''#zzz'' \<and>
      \<not> func_form ''rgb'' ''#zzz'' \<and> \<not> func_form ''hsl'' ''#zzz'')"
    using t(6) by simp
  from fails [OF n7 this] obtain e where e: "parseColor test_colors ''#zzz'' = Inl e" ..
  from invalid [OF n7 e] e
  have 7: "parseColor test_colors ''#zzz'' = Inl InvalidColor" by simp
  have "[] = [] \<or> ([] \<noteq> ''t'' \<and> [] \<noteq> ''transparent'' \<and>
      test_colors [] = None \<and> \<not> hex_form [] \<and>
      \<not> func_form ''rgb'' [] \<and> \<not> func_form ''hsl'' [])"
    by simp
  from fails [OF n8 this] obtain e' where e': "parseColor test_colors '' '' = Inl e'" ..
  from invalid [OF n8 e'] e'
  have 8: "parseColor test_colors '' '' = Inl InvalidColor" by simp
  from 1 2 3 4 5 6 7 8 show ?thesis by (intro conjI)
qed

subsection \<open>Lower case, and splitting what was joined\<close>

lemma lower_upper_disjoint: "\<forall>d \<in> set lower_chars. d \<notin> set upper_chars"
  by code_simp

lemma lower_char_idem: "lower_char (lower_char c) = lower_char c"
proof (cases "map_of (zip upper_chars lower_chars) c")
  case None
  then show ?thesis by (simp add: lower_char_def)
next
  case (Some d)
  then have "(c, d) \<in> set (zip upper_chars lower_chars)" by (rule map_of_SomeD)
  then have "d \<in> set lower_chars" by (rule set_zip_rightD)
  then have "d \<notin> set upper_chars" using lower_upper_disjoint by blast
  then have "d \<notin> fst ` set (zip upper_chars lower_chars)"
    by (auto dest: set_zip_leftD)
  then have "map_of (zip upper_chars lower_chars) d = None"
    by (simp add: map_of_eq_None_iff)
  then show ?thesis using Some by (simp add: lower_char_def)
qed

lemma toLowerCase_idem: "toLowerCase (toLowerCase s) = toLowerCase s"
  by (simp add: toLowerCase_def lower_char_idem)

lemma toLowerCase_fixed: "\<forall>c \<in> set s. lower_char c = c \<Longrightarrow> toLowerCase s = s"
  by (simp add: toLowerCase_def map_idI)

lemma lower_fixed_chars:
  "\<forall>c \<in> set ''#0123456789abcdefghijklmnopqrstuvwxyz(), ''. lower_char c = c"
  by code_simp

lemma toLowerCase_chars: "\<forall>c \<in> set (toLowerCase s). lower_char c = c"
  by (auto simp: toLowerCase_def lower_char_idem)

lemma split_on_no_sep: "\<forall>p \<in> set (split_on c s). c \<notin> set p"
proof (induction s)
  case Nil
  show ?case by simp
next
  case (Cons x s)
  show ?case
  proof (cases "x = c")
    case True
    then show ?thesis using Cons by simp
  next
    case False
    have "set (hd (split_on c s)) \<union> \<Union> (set ` set (tl (split_on c s))) = \<Union> (set ` set (split_on c s))"
      using split_on_ne [of c s] by (cases "split_on c s") auto
    then show ?thesis using False Cons
      by (simp only: split_on_Cons if_False) (cases "split_on c s"; auto)
  qed
qed

lemma split_on_sep: "c \<notin> set x \<Longrightarrow> split_on c (x @ c # s) = x # split_on c s"
  by (induction x) (auto simp: split_on_ne split: list.splits)

lemma split_join:
  "parts \<noteq> [] \<Longrightarrow> \<forall>p \<in> set parts. CHR '','' \<notin> set p \<Longrightarrow>
     split_on CHR '','' (join '', '' parts) = hd parts # map ((#) CHR '' '') (tl parts)"
proof (induction "'', ''" parts rule: join.induct)
  case 1
  then show ?case by simp
next
  case (2 x)
  then show ?case by (simp add: split_on_absent)
next
  case (3 x y ys)
  then have ih: "split_on CHR '','' (join '', '' (y # ys)) = y # map ((#) CHR '' '') ys"
    and x: "CHR '','' \<notin> set x" by auto
  have "join '', '' (x # y # ys) = x @ CHR '','' # (CHR '' '' # join '', '' (y # ys))" by simp
  then have "split_on CHR '','' (join '', '' (x # y # ys)) =
      x # split_on CHR '','' (CHR '' '' # join '', '' (y # ys))"
    using split_on_sep [OF x, of "CHR '' '' # join '', '' (y # ys)"] by simp
  also have "split_on CHR '','' (CHR '' '' # join '', '' (y # ys)) =
      (CHR '' '' # y) # map ((#) CHR '' '') ys"
    by (simp only: split_on_Cons ih) simp
  finally show ?case by simp
qed

lemma set_trim: "set (trim s) \<subseteq> set s"
  unfolding trim_def by (auto dest!: set_dropWhileD)

lemma trim_space_Cons: "trim (CHR '' '' # s) = trim s"
  using trim_ws_prefix [of "'' ''" s] by (simp add: is_ws_def)

lemma components_fixed:
  assumes "parts = map trim (split_on CHR '','' body)"
  shows "map trim (split_on CHR '','' (join '', '' parts)) = parts"
proof -
  have ne: "parts \<noteq> []" using assms split_on_ne by simp
  have nc: "\<forall>p \<in> set parts. CHR '','' \<notin> set p"
    unfolding assms using split_on_no_sep [of "CHR '',''" body] set_trim by fastforce
  have tr: "\<forall>p \<in> set parts. trim p = p" unfolding assms by (auto simp: trim_idem)
  have "map trim (split_on CHR '','' (join '', '' parts)) =
      trim (hd parts) # map (\<lambda>p. trim (CHR '' '' # p)) (tl parts)"
    using split_join [OF ne nc] by (simp add: comp_def)
  also have "\<dots> = hd parts # tl parts"
    using tr ne by (cases parts) (auto simp: trim_space_Cons map_idI)
  finally show ?thesis using ne by simp
qed

lemma set_join: "set (join sep ps) \<subseteq> set sep \<union> \<Union> (set ` set ps)"
  by (induction sep ps rule: join.induct) auto

lemma hex_not_ws: "is_hex c \<Longrightarrow> \<not> is_ws c"
  by (auto simp: is_hex_def is_ws_def)

lemma hex_lower: "is_hex c \<Longrightarrow> lower_char c = c"
  using lower_fixed_chars by (auto simp: is_hex_def)

lemma lower_fixed:
  "lower_char CHR ''r'' = CHR ''r'' \<and> lower_char CHR ''g'' = CHR ''g'' \<and>
   lower_char CHR ''b'' = CHR ''b'' \<and> lower_char CHR ''h'' = CHR ''h'' \<and>
   lower_char CHR ''s'' = CHR ''s'' \<and> lower_char CHR ''l'' = CHR ''l'' \<and>
   lower_char CHR ''a'' = CHR ''a'' \<and> lower_char CHR ''('' = CHR ''('' \<and>
   lower_char CHR '')'' = CHR '')'' \<and> lower_char CHR '','' = CHR '','' \<and>
   lower_char CHR '' '' = CHR '' '' \<and> lower_char CHR ''#'' = CHR ''#''"
  by code_simp

lemma css_table_key: "css_table T \<Longrightarrow> c \<in> set r \<Longrightarrow> c = CHR ''#'' \<or> c = CHR ''('' \<Longrightarrow> T r = None"
proof (rule ccontr)
  assume T: "css_table T" and c: "c \<in> set r" "c = CHR ''#'' \<or> c = CHR ''(''" and "T r \<noteq> None"
  then obtain v where "T r = Some v" by auto
  then have "set r \<subseteq> set ''abcdefghijklmnopqrstuvwxyz''" using T by (auto simp: css_table_def)
  then show False using c by auto
qed

lemma reparse_hex6:
  assumes T: "css_table T" and r: "hex6 r"
  shows "parseColor T r = Inr r"
proof -
  from r obtain h where h: "r = CHR ''#'' # h" "length h = 6" "list_all is_hex h"
    by (auto simp: hex6_def)
  then have hne: "h \<noteq> []" by auto
  have "last h \<in> set h" using hne by simp
  then have "is_hex (last h)" using h(3) by (simp add: list_all_iff)
  then have "\<not> is_ws (last h)" by (rule hex_not_ws)
  moreover have "\<not> is_ws CHR ''#''" by (simp add: is_ws_def)
  ultimately have "tidy r" using h(1) hne by (simp add: tidy_def)
  then have tr: "trim r = r" by (rule tidy_trim)
  have "\<forall>c \<in> set r. lower_char c = c"
    using h(1,3) by (auto simp: list_all_iff hex_lower lower_fixed)
  then have lo: "toLowerCase r = r" by (rule toLowerCase_fixed)
  have Tr: "T r = None" using T h(1) by (intro css_table_key [of T "CHR ''#''"]) auto
  have m: "match_hex r = Some h" using h by (simp add: match_hex_iff)
  have "r \<noteq> ''t''" "r \<noteq> ''transparent''" using h(1) by auto
  then show ?thesis
    unfolding parseColor_def Let_def tr lo using Tr m h by simp
qed

lemma double_hex6: "length v = 3 \<Longrightarrow> list_all is_hex v \<Longrightarrow>
    hex6 (''#'' @ concat (map (\<lambda>char. [char, char]) v))"
proof -
  assume a: "length v = 3" "list_all is_hex v"
  then obtain x y z where "v = [x, y, z]"
    by (cases v; cases "tl v"; cases "tl (tl v)") auto
  then show ?thesis using a by (simp add: hex6_def)
qed

lemma set_split_on: "\<Union> (set ` set (split_on c s)) \<subseteq> set s"
proof (induction s)
  case Nil
  show ?case by simp
next
  case (Cons x xs)
  obtain p ps where p: "split_on c xs = p # ps"
    using split_on_ne [of c xs] by (cases "split_on c xs") auto
  then have "set p \<union> \<Union> (set ` set ps) \<subseteq> set xs" using Cons by simp
  then show ?case using p by auto
qed

lemma tidy_func: "name = ''rgb'' \<or> name = ''hsl'' \<Longrightarrow> tidy (name @ a @ ''('' @ comps @ '')'')"
proof -
  assume "name = ''rgb'' \<or> name = ''hsl''"
  then have "hd (name @ a @ ''('' @ comps @ '')'') = CHR ''r'' \<or>
    hd (name @ a @ ''('' @ comps @ '')'') = CHR ''h''" by auto
  moreover have "last (name @ a @ ''('' @ comps @ '')'') = CHR '')''" by simp
  moreover have "\<not> is_ws CHR ''r''" "\<not> is_ws CHR ''h''" "\<not> is_ws CHR '')''"
    by (simp_all add: is_ws_def)
  ultimately show ?thesis unfolding tidy_def by auto
qed

lemma reparse_func:
  assumes T: "css_table T"
    and n: "toLowerCase (trim s) = name @ a @ ''('' @ body @ '')''"
    and a: "a = [] \<or> a = ''a''" and b: "CHR '')'' \<notin> set body"
    and name: "name = ''rgb'' \<or> name = ''hsl''"
    and comps: "comps = join '', '' (map trim (split_on CHR '','' body))"
    and ne: "comps \<noteq> []"
  shows "parseColor T (name @ a @ ''('' @ comps @ '')'') = Inr (name @ a @ ''('' @ comps @ '')'')"
proof -
  define r where "r = name @ a @ ''('' @ comps @ '')''"
  have sb: "set comps \<subseteq> set '', '' \<union> set body"
  proof -
    have "\<Union> (set ` set (map trim (split_on CHR '','' body))) \<subseteq> \<Union> (set ` set (split_on CHR '','' body))"
      using set_trim by fastforce
    then have "\<Union> (set ` set (map trim (split_on CHR '','' body))) \<subseteq> set body"
      using set_split_on [of "CHR '',''" body] by (rule subset_trans)
    then show ?thesis unfolding comps using set_join [of "'', ''" "map trim (split_on CHR '','' body)"]
      by blast
  qed
  have "set body \<subseteq> set (toLowerCase (trim s))" unfolding n by auto
  then have lb: "\<forall>c \<in> set body. lower_char c = c" using toLowerCase_chars by blast
  have lc: "\<forall>c \<in> set comps. lower_char c = c"
  proof
    fix c assume "c \<in> set comps"
    then have "c = CHR '','' \<or> c = CHR '' '' \<or> c \<in> set body" using sb by auto
    then show "lower_char c = c" using lb by (auto simp: lower_fixed)
  qed
  have ln: "\<forall>c \<in> set name. lower_char c = c" using name by (auto simp: lower_fixed)
  have la: "\<forall>c \<in> set a. lower_char c = c" using a by (auto simp: lower_fixed)
  have "\<forall>c \<in> set r. lower_char c = c"
    unfolding r_def using ln la lc by (auto simp: lower_fixed)
  then have lo: "toLowerCase r = r" by (rule toLowerCase_fixed)
  have "tidy r" unfolding r_def using name by (rule tidy_func)
  then have tr: "trim r = r" by (rule tidy_trim)
  have "CHR ''('' \<in> set r" by (simp add: r_def)
  then have Tr: "T r = None" using T by (intro css_table_key [of T "CHR ''(''"]) auto
  have nc: "CHR '')'' \<notin> set comps" using sb b by auto
  have "toLowerCase (trim r) = r" by (simp only: tr lo)
  also have "r = name @ a @ ''('' @ comps @ '')''" by (rule r_def)
  finally have n': "toLowerCase (trim r) = name @ a @ ''('' @ comps @ '')''" .
  have Tr': "T (toLowerCase (trim r)) = None" using Tr by (simp only: tr lo)
  have "parseColor T r =
      Inr (name @ a @ ''('' @ join '', '' (map trim (split_on CHR '','' comps)) @ '')'')"
    using n' a ne nc Tr' name by (rule parseColor_func)
  moreover have "map trim (split_on CHR '','' comps) = map trim (split_on CHR '','' body)"
    unfolding comps by (intro components_fixed) simp
  ultimately show ?thesis by (simp add: comps r_def)
qed

lemma parseColor_Inr_cases:
  assumes "parseColor T s = Inr r"
  shows "r = ''transparent'' \<or> T (toLowerCase (trim s)) = Some r \<or> hex6 r \<or>
     (\<exists>name a body. (name = ''rgb'' \<or> name = ''hsl'') \<and>
        toLowerCase (trim s) = name @ a @ ''('' @ body @ '')'' \<and> (a = [] \<or> a = ''a'') \<and>
        CHR '')'' \<notin> set body \<and>
        r = name @ a @ ''('' @ join '', '' (map trim (split_on CHR '','' body)) @ '')'')"
proof -
  let ?n = "toLowerCase (trim s)"
  consider (tr) "?n = ''t'' \<or> ?n = ''transparent''"
    | (named) v where "?n \<noteq> ''t''" "?n \<noteq> ''transparent''" "T ?n = Some v"
    | (hex) v where "?n \<noteq> ''t''" "?n \<noteq> ''transparent''" "T ?n = None" "match_hex ?n = Some v"
    | (func) name g where "T ?n = None" "match_func name ?n = Some g" "name = ''rgb'' \<or> name = ''hsl''"
    | (none) "?n \<noteq> ''t''" "?n \<noteq> ''transparent''" "T ?n = None" "match_hex ?n = None"
        "match_func ''rgb'' ?n = None" "match_func ''hsl'' ?n = None"
    by (cases "T ?n"; cases "match_hex ?n"; cases "match_func ''rgb'' ?n";
        cases "match_func ''hsl'' ?n") auto
  then show ?thesis
  proof cases
    case tr
    then show ?thesis using assms unfolding parseColor_def Let_def by (auto split: if_splits)
  next
    case named
    then show ?thesis using assms unfolding parseColor_def Let_def by (auto split: if_splits)
  next
    case hex
    then have v: "?n = CHR ''#'' # v" "length v = 3 \<or> length v = 6" "list_all is_hex v"
      by (simp_all add: match_hex_iff)
    have "hex6 r"
    proof (cases "length v = 3")
      case True
      then have "r = ''#'' @ concat (map (\<lambda>char. [char, char]) v)"
        using hex assms unfolding parseColor_def Let_def by (auto split: if_splits)
      then show ?thesis using True v(3) by (simp only: double_hex6)
    next
      case False
      then have "r = ''#'' @ v"
        using hex assms unfolding parseColor_def Let_def by (auto split: if_splits)
      then show ?thesis using False v by (simp add: hex6_def)
    qed
    then show ?thesis by simp
  next
    case func
    from match_func_form [OF func(2)]
    obtain a body where f: "?n = name @ a @ ''('' @ body @ '')''" "a = [] \<or> a = ''a''"
      "body \<noteq> []" "CHR '')'' \<notin> set body"
      by blast
    from parseColor_func [where input = s and name = name and a = a and body = body and T = T,
        OF f(1,2,3,4) func(1,3)] assms
    have "r = name @ a @ ''('' @ join '', '' (map trim (split_on CHR '','' body)) @ '')''" by simp
    then show ?thesis using f func(3) by blast
  next
    case none
    then show ?thesis using assms unfolding parseColor_def Let_def by (auto split: if_splits)
  qed
qed

lemma reparse_transparent: "parseColor T ''transparent'' = Inr ''transparent''"
proof -
  have "toLowerCase (trim ''transparent'') = ''transparent''" by code_simp
  then show ?thesis unfolding parseColor_def Let_def by simp
qed

lemma css_table_test_colors: "css_table test_colors"
  unfolding css_table_def test_colors_def hex6_def
  by (auto simp: is_hex_def split: if_splits)

subsection \<open>C10: parsing a resolved colour again\<close>

text \<open>
  C10, as stated, says that every value \<^verbatim>\<open>parseColor\<close> returns is a fixed point. The
  input \<^verbatim>\<open>rgb( )\<close> has a body of white space: the group of the regular expression is
  its last space, the one component trims to the empty string, and the result is
  \<^verbatim>\<open>rgb()\<close>, which \<^verbatim>\<open>parseColor\<close> rejects, since the body of the functional notation
  must not be empty.
\<close>

theorem parseColor_reparse_counterexample:
  "parseColor test_colors ''rgb( )'' = Inr ''rgb()'' \<and>
   parseColor test_colors ''rgb()'' = Inl InvalidColor"
  by code_simp

text \<open>
  C10, amended: for a table of names (keys of lowercase letters, values of the six-digit
  lowercase form), every result of \<^verbatim>\<open>parseColor\<close> other than the four empty functional
  forms \<^verbatim>\<open>rgb()\<close>, \<^verbatim>\<open>rgba()\<close>, \<^verbatim>\<open>hsl()\<close> and \<^verbatim>\<open>hsla()\<close> is a fixed point of
  \<^verbatim>\<open>parseColor\<close>.
\<close>

theorem parseColor_reparse:
  assumes T: "css_table T" and p: "parseColor T s = Inr r"
    and ne: "r \<noteq> ''rgb()''" "r \<noteq> ''rgba()''" "r \<noteq> ''hsl()''" "r \<noteq> ''hsla()''"
  shows "parseColor T r = Inr r"
proof -
  from parseColor_Inr_cases [OF p]
  consider "r = ''transparent''" | "T (toLowerCase (trim s)) = Some r" | "hex6 r"
    | name a body where "name = ''rgb'' \<or> name = ''hsl''"
        "toLowerCase (trim s) = name @ a @ ''('' @ body @ '')''" "a = [] \<or> a = ''a''"
        "CHR '')'' \<notin> set body"
        "r = name @ a @ ''('' @ join '', '' (map trim (split_on CHR '','' body)) @ '')''"
    by blast
  then show ?thesis
  proof cases
    case 1
    then show ?thesis by (simp only: reparse_transparent)
  next
    case 2
    then have "hex6 r" using T by (auto simp: css_table_def)
    with T show ?thesis by (rule reparse_hex6)
  next
    case 3
    with T show ?thesis by (rule reparse_hex6)
  next
    case (4 name a body)
    define comps where "comps = join '', '' (map trim (split_on CHR '','' body))"
    have "comps \<noteq> []"
    proof
      assume "comps = []"
      then have "r = name @ a @ ''()''" using 4(5) by (simp add: comps_def)
      then show False using 4(1,3) ne by auto
    qed
    from reparse_func [OF T 4(2,3,4,1) comps_def this]
    show ?thesis unfolding 4(5) comps_def .
  qed
qed

theorem parseColor_reparse_witness:
  "css_table test_colors \<and>
   parseColor test_colors ''RGB( 1,2 ,3)'' = Inr ''rgb(1, 2, 3)'' \<and>
   parseColor test_colors ''rgb(1, 2, 3)'' = Inr ''rgb(1, 2, 3)'' \<and>
   parseColor test_colors ''Red'' = Inr ''#ff0000'' \<and>
   parseColor test_colors ''#ff0000'' = Inr ''#ff0000''"
proof -
  have p: "parseColor test_colors ''RGB( 1,2 ,3)'' = Inr ''rgb(1, 2, 3)''" by code_simp
  have q: "parseColor test_colors ''Red'' = Inr ''#ff0000''" by code_simp
  have "parseColor test_colors ''rgb(1, 2, 3)'' = Inr ''rgb(1, 2, 3)''"
    by (rule parseColor_reparse [OF css_table_test_colors p]) simp_all
  moreover have "parseColor test_colors ''#ff0000'' = Inr ''#ff0000''"
    by (rule parseColor_reparse [OF css_table_test_colors q]) simp_all
  ultimately show ?thesis using css_table_test_colors p q by simp
qed

subsection \<open>Escaping, as one pass over the characters\<close>












subsection \<open>The markup, unfolded\<close>

lemma wrapText_returns: "\<exists>ls. wrapText opts = Some ls"
proof (cases "trim (WrapOptions.text' opts) \<noteq> [] \<and> WrapOptions.wrap opts \<and>
    \<not> fits (length (trim (WrapOptions.text' opts))) (charsPerLine (maxWidth opts) (WrapOptions.fontSize opts))")
  case True
  then show ?thesis using wrapText_packed [OF _ _ refl _ refl, of opts] by blast
next
  case False
  then show ?thesis using wrapText_simple [of opts] by blast
qed

lemma concat_filter_nonempty: "concat (filter (\<lambda>s. s \<noteq> []) xs) = concat xs"
  by (induction xs) auto

lemma buildSVG_unfold:
  fixes opts :: SvgOptions
  defines "cs \<equiv> max 1 (min (case SvgOptions.scale opts of None \<Rightarrow> 1 | Some s \<Rightarrow> s) 4)"
  defines "sw \<equiv> max 1 (real_of_int (Math_round (SvgOptions.width opts * cs)))"
  defines "sh \<equiv> max 1 (real_of_int (Math_round (SvgOptions.height opts * cs)))"
  defines "sp \<equiv> max 0 (SvgOptions.pad opts * cs)"
  defines "shd \<equiv> (case SvgOptions.shadow opts of None \<Rightarrow> False | Some b \<Rightarrow> b)"
  shows "\<exists>lines.
     (case SvgOptions.text' opts of
        None \<Rightarrow> lines = []
      | Some t \<Rightarrow>
          if t = [] then lines = []
          else wrapText \<lparr>WrapOptions.text' = t, maxWidth = max 0 (sw - sp * 2),
                 WrapOptions.fontSize = SvgOptions.fontSize opts * cs,
                 WrapOptions.wrap = SvgOptions.wrap opts, maxLines = None\<rparr> = Some lines) \<and>
     buildSVG toStr opts =
       Some (''<svg xmlns=\"http://www.w3.org/2000/svg\" width=\"'' @
               toStr (SvgOptions.width opts) @ ''\" height=\"'' @ toStr (SvgOptions.height opts) @
               ''\" viewBox=\"0 0 '' @ toStr sw @ '' '' @ toStr sh @
               ''\" role=\"img\" aria-label=\"'' @
               escapeXML (case SvgOptions.text' opts of
                            None \<Rightarrow> toStr (SvgOptions.width opts) @ ''x'' @ toStr (SvgOptions.height opts)
                          | Some t \<Rightarrow> t) @ ''\">'' @
             (if shd then buildShadowFilter else []) @
             buildRect toStr
               \<lparr>RectOptions.width = sw, RectOptions.height = sh,
                RectOptions.background = SvgOptions.background opts,
                RectOptions.radius = (case SvgOptions.radius opts of None \<Rightarrow> 0 | Some r \<Rightarrow> r),
                RectOptions.stroke = SvgOptions.stroke opts,
                RectOptions.strokeWidth = (case SvgOptions.strokeWidth opts of None \<Rightarrow> 0 | Some w \<Rightarrow> w),
                RectOptions.shadow = shd\<rparr> @
             (if lines = [] then []
              else buildText toStr lines
                     \<lparr>x' = (if SvgOptions.align opts = Center then sw / 2
                            else if SvgOptions.align opts = Left then sp else sw - sp),
                      yStart = sh / 2, lineHeight = SvgOptions.fontSize opts * cs * 1.2,
                      fill = SvgOptions.foreground opts, anchor = alignToAnchor (SvgOptions.align opts),
                      TextOptions.fontFamily =
                        (case SvgOptions.fontFamily opts of None \<Rightarrow> DEFAULT_FONT | Some f \<Rightarrow> f),
                      TextOptions.fontSize = SvgOptions.fontSize opts * cs,
                      TextOptions.fontWeight = SvgOptions.fontWeight opts\<rparr>) @
             ''</svg>'')"
proof -
  define wl where "wl = (case SvgOptions.text' opts of
                 None \<Rightarrow> Some []
               | Some t \<Rightarrow>
                   if t = [] then Some []
                   else wrapText \<lparr>WrapOptions.text' = t, maxWidth = max 0 (sw - sp * 2),
                          WrapOptions.fontSize = SvgOptions.fontSize opts * cs,
                          WrapOptions.wrap = SvgOptions.wrap opts, maxLines = None\<rparr>)"
  have "\<exists>lines. wl = Some lines"
  proof (cases "SvgOptions.text' opts")
    case None
    then show ?thesis by (simp add: wl_def)
  next
    case (Some t)
    then show ?thesis using wrapText_returns by (cases "t = []") (simp_all add: wl_def)
  qed
  then obtain lines where l: "wl = Some lines" ..
  have c: "(case SvgOptions.text' opts of
        None \<Rightarrow> lines = []
      | Some t \<Rightarrow>
          if t = [] then lines = []
          else wrapText \<lparr>WrapOptions.text' = t, maxWidth = max 0 (sw - sp * 2),
                 WrapOptions.fontSize = SvgOptions.fontSize opts * cs,
                 WrapOptions.wrap = SvgOptions.wrap opts, maxLines = None\<rparr> = Some lines)"
    using l unfolding wl_def by (auto split: option.splits)
  show ?thesis
    apply (rule exI [of _ lines])
    apply (rule conjI [OF c])
    unfolding buildSVG_def Let_def concat_filter_nonempty
      cs_def [symmetric] sw_def [symmetric] sh_def [symmetric] sp_def [symmetric]
      shd_def [symmetric] wl_def [symmetric] l
    apply simp
    done
qed




subsection \<open>C5: the root element\<close>



subsection \<open>C9: escaping of the embedded text\<close>



subsection \<open>Colours as channels\<close>













subsection \<open>C3: automatic contrast\<close>



subsection \<open>The fingerprint and the responses\<close>

lemma hex_digit_mem: "n < 16 \<Longrightarrow> ''0123456789abcdef'' ! n \<in> set ''0123456789abcdef''"
  by (rule nth_mem) simp

lemma toString16_chars: "toString16 n \<noteq> [] \<and> set (toString16 n) \<subseteq> set ''0123456789abcdef''"
proof (induction n rule: toString16.induct)
  case (1 n)
  show ?case
  proof (cases "n < 16")
    case True
    then have "toString16 n = [''0123456789abcdef'' ! n]" by (subst toString16.simps) simp
    then show ?thesis using hex_digit_mem [OF True] by simp
  next
    case False
    then have e: "toString16 n = toString16 (n div 16) @ [''0123456789abcdef'' ! (n mod 16)]"
      by (subst toString16.simps) simp
    have "n mod 16 < 16" by simp
    then have "''0123456789abcdef'' ! (n mod 16) \<in> set ''0123456789abcdef''"
      by (rule hex_digit_mem)
    then show ?thesis using "1.IH" [OF False] unfolding e by simp
  qed
qed

lemma padStart2_chars:
  "2 \<le> length (padStart2 (toString16 n)) \<and>
   set (padStart2 (toString16 n)) \<subseteq> set ''0123456789abcdef''"
proof -
  define H where "H = set ''0123456789abcdef''"
  have "CHR ''0'' \<in> H" by (simp add: H_def)
  then have "set (replicate (2 - length (toString16 n)) CHR ''0'') \<subseteq> H"
    by (auto simp: set_replicate_conv_if)
  moreover have "set (toString16 n) \<subseteq> H"
    using toString16_chars [of n] by (simp add: H_def)
  ultimately have a: "set (padStart2 (toString16 n)) \<subseteq> H"
    unfolding padStart2_def by simp
  have b: "2 \<le> length (padStart2 (toString16 n))"
    unfolding padStart2_def by simp
  show ?thesis using a b by (simp add: H_def)
qed

lemma length_concat_ge:
  "\<forall>s \<in> set xs. k \<le> length s \<Longrightarrow> k * length xs \<le> length (concat xs)"
  by (induction xs) (auto simp: algebra_simps)

lemma hashString_shape:
  assumes "length (sha256 (utf8 v)) = 32"
  shows "length (hashString sha256 v) = 32 \<and>
         set (hashString sha256 v) \<subseteq> set ''0123456789abcdef''"
proof -
  let ?xs = "map (\<lambda>byte. padStart2 (toString16 byte)) (sha256 (utf8 v))"
  have "\<forall>s \<in> set ?xs. 2 \<le> length s" using padStart2_chars by auto
  then have "2 * length ?xs \<le> length (concat ?xs)" by (rule length_concat_ge)
  then have l: "32 \<le> length (concat ?xs)" using assms by simp
  define H where "H = set ''0123456789abcdef''"
  have "\<forall>s \<in> set ?xs. set s \<subseteq> H" unfolding H_def using padStart2_chars by auto
  then have "set (concat ?xs) \<subseteq> H" by auto
  moreover have "set (take 32 (concat ?xs)) \<subseteq> set (concat ?xs)" by (rule set_take_subset)
  ultimately have "set (take 32 (concat ?xs)) \<subseteq> H" by (rule subset_trans [rotated])
  moreover have "length (take 32 (concat ?xs)) = 32" using l by simp
  ultimately show ?thesis unfolding hashString_def Let_def H_def by (intro conjI)
qed

lemma buildSVG_returns: "\<exists>svg. buildSVG toStr opts = Some svg"
  using buildSVG_unfold [where toStr = toStr and opts = opts] by blast

lemma renderSvg_resolved:
  assumes "resolveConfig T opts = Inr p"
  shows "\<exists>svg. buildSVG toStr (svgOptions p) = Some svg \<and>
           renderSvg toStr sha256 T opts = Some (Inr (svg, etagOf toStr sha256 p))"
  using assms buildSVG_returns [of toStr "svgOptions p"] by (auto simp: renderSvg_def)

lemma renderSvg_returns: "\<exists>res. renderSvg toStr sha256 T opts = Some res"
proof (cases "resolveConfig T opts")
  case (Inl e)
  then show ?thesis by (simp add: renderSvg_def)
next
  case (Inr p)
  then show ?thesis using renderSvg_resolved [OF Inr] by blast
qed

lemma renderOptions_cong:
  "lookup r1 = lookup r2 \<Longrightarrow> query r1 = query r2 \<Longrightarrow> renderOptions T r1 = renderOptions T r2"
  unfolding renderOptions_def by (erule ssubst, erule ssubst) (rule refl)

lemma fetch_cases:
  assumes m: "method' r \<noteq> ''OPTIONS''"
  shows "\<exists>resp. fetch toStr sha256 T r = Some resp \<and>
     headers resp =
       (if lookup r = [] then headers (usageResponse None)
        else case renderOptions T r of
               Inl e \<Rightarrow> headers (usageResponse None)
             | Inr opts \<Rightarrow>
                 (case renderSvg toStr sha256 T opts of
                    Some (Inr (svg, etag)) \<Rightarrow>
                      buildHeaders
                        [(''Content-Type'', ''image/svg+xml; charset=utf-8''),
                         (''Cache-Control'', ''public, max-age=31536000, immutable''),
                         (''ETag'', etag)]
                  | _ \<Rightarrow> headers (usageResponse None)))"
proof (cases "lookup r = []")
  case True
  then show ?thesis using m by (simp add: fetch_def)
next
  case False
  show ?thesis
  proof (cases "renderOptions T r")
    case (Inl e)
    then show ?thesis using m False by (simp add: fetch_def usageResponse_def)
  next
    case (Inr opts)
    from renderSvg_returns [of toStr sha256 T opts] obtain res
      where res: "renderSvg toStr sha256 T opts = Some res" ..
    show ?thesis
    proof (cases res)
      case (Inl e)
      then show ?thesis using m False Inr res by (simp add: fetch_def usageResponse_def)
    next
      case r: (Inr se)
      obtain svg etag where se: "se = (svg, etag)" by (cases se)
      show ?thesis using m False Inr res r se by (simp add: fetch_def Let_def)
    qed
  qed
qed

subsection \<open>C6: the fingerprint\<close>

text \<open>
  C6: with a digest of 32 bytes, the fingerprint is 32 lowercase hexadecimal
  characters, and the entity tag is the fingerprint of the text of the resolved
  configuration, in double quotes. Two renders whose resolved configurations are
  equal give the same entity tag (and the same markup). Two requests other than
  \<^verbatim>\<open>OPTIONS\<close> with the same path and the same query are answered with the same headers,
  whatever their methods and their \<^verbatim>\<open>If-None-Match\<close> headers are; and when the request
  resolves to a configuration, the \<^verbatim>\<open>ETag\<close> header of the answer is the entity tag of
  that configuration.
\<close>

theorem fingerprint_of_configuration:
  assumes sha: "\<forall>data. length (sha256 data) = 32"
  shows
   "length (hashString sha256 v) = 32 \<and>
    set (hashString sha256 v) \<subseteq> set ''0123456789abcdef'' \<and>
    etagOf toStr sha256 p = [CHR 0x22] @ hashString sha256 (stringify toStr p) @ [CHR 0x22] \<and>
    (resolveConfig T o1 = Inr p \<and> resolveConfig T o2 = Inr p \<longrightarrow>
       (\<exists>svg. renderSvg toStr sha256 T o1 = Some (Inr (svg, etagOf toStr sha256 p)) \<and>
              renderSvg toStr sha256 T o2 = Some (Inr (svg, etagOf toStr sha256 p)))) \<and>
    (method' r1 \<noteq> ''OPTIONS'' \<and> method' r2 \<noteq> ''OPTIONS'' \<and> lookup r1 = lookup r2 \<and>
     query r1 = query r2 \<longrightarrow>
       (\<exists>resp1 resp2. fetch toStr sha256 T r1 = Some resp1 \<and>
          fetch toStr sha256 T r2 = Some resp2 \<and> headers resp1 = headers resp2)) \<and>
    (method' r1 \<noteq> ''OPTIONS'' \<and> lookup r1 \<noteq> [] \<and> renderOptions T r1 = Inr o1 \<and>
     resolveConfig T o1 = Inr p \<longrightarrow>
       (\<exists>resp. fetch toStr sha256 T r1 = Some resp \<and>
          map_of (headers resp) ''ETag'' = Some (etagOf toStr sha256 p)))"
proof -
  have a: "length (hashString sha256 v) = 32 \<and>
      set (hashString sha256 v) \<subseteq> set ''0123456789abcdef''"
    using sha by (intro hashString_shape) simp
  have b: "etagOf toStr sha256 p = [CHR 0x22] @ hashString sha256 (stringify toStr p) @ [CHR 0x22]"
    by (simp add: etagOf_def Let_def)
  have c: "\<exists>svg. renderSvg toStr sha256 T o1 = Some (Inr (svg, etagOf toStr sha256 p)) \<and>
              renderSvg toStr sha256 T o2 = Some (Inr (svg, etagOf toStr sha256 p))"
    if "resolveConfig T o1 = Inr p" "resolveConfig T o2 = Inr p"
    using renderSvg_resolved [OF that(1), of toStr sha256]
      renderSvg_resolved [OF that(2), of toStr sha256] by auto
  have d: "\<exists>resp1 resp2. fetch toStr sha256 T r1 = Some resp1 \<and>
          fetch toStr sha256 T r2 = Some resp2 \<and> headers resp1 = headers resp2"
    if "method' r1 \<noteq> ''OPTIONS''" "method' r2 \<noteq> ''OPTIONS''" "lookup r1 = lookup r2"
      "query r1 = query r2"
  proof -
    have ro: "renderOptions T r1 = renderOptions T r2" using that(3,4) by (rule renderOptions_cong)
    from fetch_cases [OF that(1), of toStr sha256 T] fetch_cases [OF that(2), of toStr sha256 T]
    show ?thesis unfolding ro that(3) by (elim exE conjE) (erule ssubst, auto)
  qed
  have e: "\<exists>resp. fetch toStr sha256 T r1 = Some resp \<and>
          map_of (headers resp) ''ETag'' = Some (etagOf toStr sha256 p)"
    if "method' r1 \<noteq> ''OPTIONS''" "lookup r1 \<noteq> []" "renderOptions T r1 = Inr o1"
      "resolveConfig T o1 = Inr p"
  proof -
    from renderSvg_resolved [OF that(4), of toStr sha256] obtain svg where
      "renderSvg toStr sha256 T o1 = Some (Inr (svg, etagOf toStr sha256 p))" by blast
    then show ?thesis
      using fetch_cases [OF that(1), of toStr sha256 T] that(2,3)
      by (auto simp: buildHeaders_def)
  qed
  show ?thesis using a b c d e by blast
qed

theorem fingerprint_of_configuration_witness:
  "length (hashString sample_digest ''abc'') = 32 \<and>
   set (hashString sample_digest ''abc'') \<subseteq> set ''0123456789abcdef'' \<and>
   (\<exists>resp1 resp2.
      fetch show_num sample_digest test_colors
        \<lparr>method' = ''GET'', lookup = [''600x300'', ''red'', ''yellow''],
         query = (\<lambda>k. if k = ''says'' then Some ''Hello World'' else None),
         ifNoneMatch = None\<rparr> = Some resp1 \<and>
      fetch show_num sample_digest test_colors
        \<lparr>method' = ''HEAD'', lookup = [''600x300'', ''red'', ''yellow''],
         query = (\<lambda>k. if k = ''says'' then Some ''Hello World'' else None),
         ifNoneMatch = Some ''abc''\<rparr> = Some resp2 \<and>
      headers resp1 = headers resp2)"
proof -
  let ?a = "\<lparr>method' = ''GET'', lookup = [''600x300'', ''red'', ''yellow''],
         query = (\<lambda>k. if k = ''says'' then Some ''Hello World'' else None),
         ifNoneMatch = None\<rparr>"
  let ?b = "\<lparr>method' = ''HEAD'', lookup = [''600x300'', ''red'', ''yellow''],
         query = (\<lambda>k. if k = ''says'' then Some ''Hello World'' else None),
         ifNoneMatch = Some ''abc''\<rparr>"
  have sha: "\<forall>data. length (sample_digest data) = 32" by (simp add: sample_digest_def)
  note r = fingerprint_of_configuration [OF sha, where v = "''abc''" and ?r1.0 = ?a and ?r2.0 = ?b
      and toStr = show_num and T = test_colors]
  have h: "method' ?a \<noteq> ''OPTIONS'' \<and> method' ?b \<noteq> ''OPTIONS'' \<and> lookup ?a = lookup ?b \<and>
      query ?a = query ?b" by simp
  have 1: "length (hashString sample_digest ''abc'') = 32"
    and 2: "set (hashString sample_digest ''abc'') \<subseteq> set ''0123456789abcdef''"
    using r by blast+
  have 3: "\<exists>resp1 resp2. fetch show_num sample_digest test_colors ?a = Some resp1 \<and>
      fetch show_num sample_digest test_colors ?b = Some resp2 \<and> headers resp1 = headers resp2"
    using r h by blast
  show ?thesis using 1 2 3 by (intro conjI)
qed

end
